theory Spec2Isabelle
  imports Main
begin

section \<open>Values, envelopes and the ambient environment\<close>

text \<open>
  Values that cross the bridge. \<open>JSON.parse\<close> produces every constructor but
  \<open>JUndefined\<close>, which is what reading a missing property gives. Numbers are the
  integer-valued ones (the status codes of the protocol). \<open>JSON.stringify\<close> throws on
  none of these values, so serialising a message is not a source of failure here; the
  send itself is.
\<close>

datatype jsval =
    JUndefined
  | JNull
  | JBool bool
  | JNum int
  | JStr string
  | JArr "jsval list"
  | JObj "(string \<times> jsval) list"

text \<open>JavaScript truthiness, as used by \<open>!payload\<close> and \<open>payload.action && ...\<close>.\<close>

fun truthy :: "jsval \<Rightarrow> bool" where
  "truthy JUndefined = False"
| "truthy JNull = False"
| "truthy (JBool b) = b"
| "truthy (JNum n) = (n \<noteq> 0)"
| "truthy (JStr s) = (s \<noteq> [])"
| "truthy (JArr xs) = True"
| "truthy (JObj kvs) = True"

text \<open>\<open>typeof v === "string"\<close>.\<close>

fun is_string :: "jsval \<Rightarrow> bool" where
  "is_string (JStr s) = True"
| "is_string v = False"

text \<open>
  \<open>interface Payload\<close> of type.ts. The declared types of \<open>code\<close> (number) and
  \<open>errorMessage\<close> (string) are taken as given, with \<open>None\<close> for a property that is
  \<open>undefined\<close> or \<open>null\<close> (the code tests both with \<open>== null\<close>). \<open>action\<close> and
  \<open>id\<close> are kept as arbitrary values, because dispatch checks them at run time.
\<close>

record payload =
  action :: jsval
  msg_id :: jsval
  data :: jsval
  code :: "int option"
  errorMessage :: "string option"

text \<open>
  What \<open>JSON.parse\<close> returned, as far as dispatch looks at it: \<open>Falsy\<close> is one of
  \<open>null\<close>, \<open>false\<close>, \<open>0\<close>, \<open>""\<close>; any other value is seen through the five
  properties that dispatch reads (a truthy primitive or an array reads all five as missing).
\<close>

datatype parsed = Falsy | Envelope payload

text \<open>\<open>payload?.id\<close> and \<open>payload?.action\<close>.\<close>

fun opt_id :: "parsed \<Rightarrow> jsval" where
  "opt_id Falsy = JUndefined"
| "opt_id (Envelope p) = msg_id p"

fun opt_action :: "parsed \<Rightarrow> jsval" where
  "opt_action Falsy = JUndefined"
| "opt_action (Envelope p) = action p"

text \<open>
  What \<open>window[channelName]\<close> holds: nothing (falsy), an object without a
  \<open>postMessage\<close> function, or an object whose \<open>postMessage\<close> can be called; the flag
  says whether the call returns (\<open>True\<close>) or throws.
\<close>

datatype bridge = Absent | NoPostMessage | Sender bool

text \<open>The text of an error message, as the template literal that builds it: literal text
  and interpolated numbers. How \<open>String(n)\<close> prints a number is the platform's matter
  (plain digits up to 1e21, exponent notation from there on) and is not modelled.\<close>

datatype part = Lit string | Num int

text \<open>Exceptions and rejection reasons: \<open>new Error(message)\<close>, the same with a \<open>code\<close>
  property assigned, the \<open>TypeError\<close> of calling what is not a function, and whatever
  the host's \<open>postMessage\<close> throws.\<close>

datatype exn =
    Error "part list"
  | ErrorWithCode "part list" "int option"
  | TypeError
  | HostError

datatype settlement = Resolved jsval | Rejected exn

text \<open>How the promise returned by a handler settles. A handler that throws before it
  returns a promise is caught by the same \<open>try\<close> block and counts as \<open>Rejects\<close>.
  Handlers are named by numbers, which stand for the references of the callback
  functions.\<close>

datatype handler_result = Fulfils jsval | Rejects jsval

datatype level = Info | Warn | Err

text \<open>\<open>interface Options\<close>. The timeout is \<open>None\<close> when the caller of the constructor
  passed \<open>{timeout: undefined}\<close>, which the spread lets overwrite the default.\<close>

record options =
  timeout :: "int option"
  innerChannel :: string

text \<open>\<open>interface PendingPromise\<close>: the resolve/reject pair is named by the number of
  the promise it settles.\<close>

record pending_promise =
  promise :: nat
  timer :: nat

text \<open>Code suspended in \<open>await this.waitForBridgeReady()\<close>, with the constants it captured
  before the \<open>await\<close>.\<close>

datatype waiter =
    AwaitPost bridge string jsval "int option"
  | AwaitDispatch payload nat bridge

datatype timer_cb =
    RequestTimeout nat string string "int option"
  | CheckBridge waiter

text \<open>A handler that was called and whose promise has not settled yet.\<close>

record invocation =
  callback :: nat
  event :: payload
  ackBridge :: bridge

text \<open>
  The instance (\<open>channelName\<close>, \<open>options\<close>, \<open>pendingPromises\<close>, \<open>eventListeners\<close>)
  together with what it lives in: the store of \<open>Set\<close> objects that \<open>eventListeners\<close>
  refers to, the properties of \<open>window\<close>, the armed timers, the number of identifiers
  drawn from \<open>nanoid\<close>, and what can be observed from outside: every call of a promise's
  resolve or reject, every handler call, the handlers still running, the messages
  delivered to a bridge, and the console.
\<close>

record world =
  channelName :: string
  options :: options
  pendingPromises :: "string \<rightharpoonup> pending_promise"
  eventListeners :: "string \<rightharpoonup> nat"
  sets :: "nat \<Rightarrow> nat list"
  nextSet :: nat
  window :: "string \<Rightarrow> bridge"
  timers :: "nat \<rightharpoonup> timer_cb \<times> int option"
  nextTimer :: nat
  issued :: nat
  settled :: "(nat \<times> settlement) list"
  invoked :: "(nat \<times> payload) list"
  running :: "invocation list"
  outbox :: "(string \<times> payload) list"
  console :: "(level \<times> string) list"

section \<open>Primitives of the environment\<close>

definition dquote :: string where
  "dquote = [CHR 0x22]"

text \<open>The console keeps the level and the text of the first argument; where that text
  interpolates a serialised message or an arbitrary value, it is cut before it.\<close>

definition console_log :: "string \<Rightarrow> world \<Rightarrow> world" where
  "console_log m s = s\<lparr>console := console s @ [(Info, m)]\<rparr>"

definition console_warn :: "string \<Rightarrow> world \<Rightarrow> world" where
  "console_warn m s = s\<lparr>console := console s @ [(Warn, m)]\<rparr>"

definition console_error :: "string \<Rightarrow> world \<Rightarrow> world" where
  "console_error m s = s\<lparr>console := console s @ [(Err, m)]\<rparr>"

text \<open>\<open>window.setTimeout\<close> returns a fresh timer number; a timer stays armed until it is
  cleared or fires. The model has no clock: the delay (\<open>None\<close> for \<open>undefined\<close>) is
  recorded with the timer.\<close>

definition setTimeout :: "timer_cb \<Rightarrow> int option \<Rightarrow> world \<Rightarrow> nat \<times> world" where
  "setTimeout cb delay s =
     (nextTimer s, s\<lparr>timers := (timers s)(nextTimer s \<mapsto> (cb, delay)), nextTimer := Suc (nextTimer s)\<rparr>)"

definition clearTimeout :: "nat \<Rightarrow> world \<Rightarrow> world" where
  "clearTimeout tm s = s\<lparr>timers := (timers s)(tm := None)\<rparr>"

text \<open>Calling the resolve or reject function of promise \<open>n\<close>.\<close>

definition settle :: "nat \<Rightarrow> settlement \<Rightarrow> world \<Rightarrow> world" where
  "settle n r s = s\<lparr>settled := settled s @ [(n, r)]\<rparr>"

text \<open>\<open>getBridge\<close>: \<open>(window as any)?.[channelName]\<close>.\<close>

definition getBridge :: "world \<Rightarrow> string \<Rightarrow> bridge" where
  "getBridge s name = window s name"

text \<open>\<open>bridge && typeof bridge.postMessage === 'function'\<close>.\<close>

fun is_ready :: "bridge \<Rightarrow> bool" where
  "is_ready (Sender ok) = True"
| "is_ready b = False"

text \<open>\<open>b.postMessage(JSON.stringify(m))\<close> on the object read from \<open>window[name]\<close>:
  a \<open>TypeError\<close> when there is no such function, whatever the host throws otherwise.
  The outbox records the envelope that was serialised and delivered.\<close>

definition bridge_postMessage :: "bridge \<Rightarrow> string \<Rightarrow> payload \<Rightarrow> world \<Rightarrow> exn + world" where
  "bridge_postMessage b name m s =
     (case b of
        Absent \<Rightarrow> Inl TypeError
      | NoPostMessage \<Rightarrow> Inl TypeError
      | Sender ok \<Rightarrow> if ok then Inr (s\<lparr>outbox := outbox s @ [(name, m)]\<rparr>) else Inl HostError)"

text \<open>\<open>b?.postMessage(...)\<close>: skipped when \<open>b\<close> is undefined.\<close>

definition opt_postMessage :: "bridge \<Rightarrow> string \<Rightarrow> payload \<Rightarrow> world \<Rightarrow> exn + world" where
  "opt_postMessage b name m s = (if b = Absent then Inr s else bridge_postMessage b name m s)"

text \<open>Lookups in the two maps with a key that need not be a string: the keys stored
  are strings, so no other value is found.\<close>

fun pending_get :: "world \<Rightarrow> jsval \<Rightarrow> pending_promise option" where
  "pending_get s (JStr i) = pendingPromises s i"
| "pending_get s v = None"

fun pending_delete :: "jsval \<Rightarrow> world \<Rightarrow> world" where
  "pending_delete (JStr i) s = s\<lparr>pendingPromises := (pendingPromises s)(i := None)\<rparr>"
| "pending_delete v s = s"

fun listeners_get :: "world \<Rightarrow> jsval \<Rightarrow> nat option" where
  "listeners_get s (JStr a) = eventListeners s a"
| "listeners_get s v = None"

section \<open>The class \<open>FlutterBridgeSDK\<close>\<close>

text \<open>The constructor: the defaults of the source, overridden by what the caller passes
  (\<open>Partial<Options>\<close>); \<open>w\<close> is \<open>window\<close> as it is when the instance is made.
  \<open>timeout_opt\<close> is \<open>None\<close> when the options object has no \<open>timeout\<close> property,
  \<open>Some None\<close> when it has one that is \<open>undefined\<close> (the spread
  \<open>{...this.options, ...options}\<close> then overwrites the default with \<open>undefined\<close>), and
  \<open>Some (Some t)\<close> for a number. The inner channel, when passed, is a string.\<close>

definition FlutterBridgeSDK ::
  "string option \<Rightarrow> int option option \<Rightarrow> string option \<Rightarrow> (string \<Rightarrow> bridge) \<Rightarrow> world" where
  "FlutterBridgeSDK name timeout_opt inner_opt w =
     \<lparr>channelName = (case name of None \<Rightarrow> ''client_to_native_channel'' | Some c \<Rightarrow> c),
      options = \<lparr>timeout = (case timeout_opt of None \<Rightarrow> Some 15000 | Some t \<Rightarrow> t),
                 innerChannel = (case inner_opt of None \<Rightarrow> ''native_to_client_channel'' | Some c \<Rightarrow> c)\<rparr>,
      pendingPromises = Map.empty,
      eventListeners = Map.empty,
      sets = (\<lambda>r. []),
      nextSet = 0,
      window = w,
      timers = Map.empty,
      nextTimer = 0,
      issued = 0,
      settled = [],
      invoked = [],
      running = [],
      outbox = [],
      console = []\<rparr>"

subsection \<open>postMessage\<close>

text \<open>The message of the timeout error, and the callback of the timeout timer of
  \<open>postMessage\<close> for promise \<open>n\<close> with identifier \<open>i\<close>.\<close>

definition timeout_message :: "string \<Rightarrow> string \<Rightarrow> int option \<Rightarrow> part list" where
  "timeout_message a i t =
     [Lit (''FlutterBridgeSDK: Request timed out for action '' @ dquote @ a @ dquote @
           '' (id: '' @ i @ '') after ''),
      (case t of None \<Rightarrow> Lit ''undefined'' | Some ms \<Rightarrow> Num ms),
      Lit ''ms'']"

definition request_timeout :: "nat \<Rightarrow> string \<Rightarrow> string \<Rightarrow> int option \<Rightarrow> world \<Rightarrow> world" where
  "request_timeout n i a t s =
     (if pendingPromises s i \<noteq> None
      then settle n (Rejected (Error (timeout_message a i t)))
             (s\<lparr>pendingPromises := (pendingPromises s)(i := None)\<rparr>)
      else s)"

text \<open>The body of \<open>postMessage\<close> from \<open>const id = nanoid()\<close> on. \<open>nanoid k\<close> is the
  \<open>k\<close>-th identifier the generator returns; \<open>nativeBridge\<close> is the constant read at the
  top of \<open>postMessage\<close>.\<close>

definition postMessage_body ::
  "(nat \<Rightarrow> string) \<Rightarrow> bridge \<Rightarrow> string \<Rightarrow> jsval \<Rightarrow> int option \<Rightarrow> world \<Rightarrow> world" where
  "postMessage_body nanoid nativeBridge a d t s =
     (let n = issued s;
          i = nanoid n;
          s1 = s\<lparr>issued := Suc n\<rparr>;
          (tm, s2) = setTimeout (RequestTimeout n i a t) t s1;
          s3 = s2\<lparr>pendingPromises := (pendingPromises s2)(i \<mapsto> \<lparr>promise = n, timer = tm\<rparr>)\<rparr>;
          s4 = console_log (''FlutterBridgeSDK: Sending message to Flutter (id: '' @ i @ ''): '') s3
      in case bridge_postMessage nativeBridge (channelName s4)
                \<lparr>action = JStr a, msg_id = JStr i, data = d, code = None, errorMessage = None\<rparr> s4 of
           Inr s5 \<Rightarrow> s5
         | Inl e \<Rightarrow>
             (let s5 = console_error (''FlutterBridgeSDK: Error sending message (id: '' @ i @ ''):'') s4;
                  s6 = clearTimeout tm s5;
                  s7 = s6\<lparr>pendingPromises := (pendingPromises s6)(i := None)\<rparr>
              in settle n (Rejected e) s7))"

subsection \<open>The event branch of dispatch\<close>

text \<open>\<open>listeners.forEach(async (callback) => ...)\<close> up to the \<open>await\<close>: every handler
  in the Set is called with the data and is then running.\<close>

definition call_handler :: "payload \<Rightarrow> bridge \<Rightarrow> world \<Rightarrow> nat \<Rightarrow> world" where
  "call_handler p innerBridge s cb =
     s\<lparr>invoked := invoked s @ [(cb, p)],
       running := running s @ [\<lparr>callback = cb, event = p, ackBridge = innerBridge\<rparr>]\<rparr>"

definition dispatch_event :: "payload \<Rightarrow> nat \<Rightarrow> bridge \<Rightarrow> world \<Rightarrow> world" where
  "dispatch_event p listeners innerBridge s = foldl (call_handler p innerBridge) s (sets s listeners)"

text \<open>The rest of the callback, once the promise of the \<open>k\<close>-th running handler has
  settled. A send that throws in the \<open>try\<close> block lands in the \<open>catch\<close> block; a send
  that throws in the \<open>catch\<close> block ends the callback before \<open>console.error\<close>.\<close>

definition ack_failure :: "invocation \<Rightarrow> world \<Rightarrow> world" where
  "ack_failure call s =
     (case opt_postMessage (ackBridge call) (innerChannel (options s))
             \<lparr>action = action (event call), msg_id = msg_id (event call), data = JUndefined,
              code = Some 500, errorMessage = None\<rparr> s of
        Inr s1 \<Rightarrow> console_error ''FlutterBridgeSDK: Error in event listener for action '' s1
      | Inl e \<Rightarrow> s)"

definition handler_settled :: "nat \<Rightarrow> handler_result \<Rightarrow> world \<Rightarrow> world" where
  "handler_settled k res s =
     (if k < length (running s) then
        (let call = running s ! k;
             s1 = s\<lparr>running := take k (running s) @ drop (Suc k) (running s)\<rparr>
         in case res of
              Fulfils r \<Rightarrow>
                (case opt_postMessage (ackBridge call) (innerChannel (options s1))
                        \<lparr>action = action (event call), msg_id = msg_id (event call), data = r,
                         code = Some 200, errorMessage = None\<rparr> s1 of
                   Inr s2 \<Rightarrow> s2
                 | Inl e \<Rightarrow> ack_failure call s1)
            | Rejects e \<Rightarrow> ack_failure call s1)
      else s)"

subsection \<open>waitForBridgeReady\<close>

text \<open>What runs after \<open>await this.waitForBridgeReady()\<close>.\<close>

fun resume :: "(nat \<Rightarrow> string) \<Rightarrow> waiter \<Rightarrow> world \<Rightarrow> world" where
  "resume nanoid (AwaitPost nativeBridge a d t) s = postMessage_body nanoid nativeBridge a d t s"
| "resume nanoid (AwaitDispatch p listeners innerBridge) s = dispatch_event p listeners innerBridge s"

definition checkBridge :: "(nat \<Rightarrow> string) \<Rightarrow> waiter \<Rightarrow> world \<Rightarrow> world" where
  "checkBridge nanoid w s =
     (let bridge = getBridge s (channelName s);
          innerBridge = getBridge s (innerChannel (options s))
      in if is_ready bridge \<and> is_ready innerBridge then resume nanoid w s
         else snd (setTimeout (CheckBridge w) (Some 100) s))"

definition waitForBridgeReady :: "(nat \<Rightarrow> string) \<Rightarrow> waiter \<Rightarrow> world \<Rightarrow> world" where
  "waitForBridgeReady nanoid w s = checkBridge nanoid w s"

text \<open>\<open>postMessage(action, data, timeout = this.options.timeout)\<close>: an argument that is
  missing or \<open>undefined\<close> (\<open>None\<close>) takes the default, which is itself \<open>undefined\<close>
  when the option is.\<close>

definition postMessage ::
  "(nat \<Rightarrow> string) \<Rightarrow> string \<Rightarrow> jsval \<Rightarrow> int option \<Rightarrow> world \<Rightarrow> world" where
  "postMessage nanoid a d timeout_arg s =
     (let t = (case timeout_arg of None \<Rightarrow> timeout (options s) | Some t' \<Rightarrow> Some t');
          nativeBridge = getBridge s (channelName s)
      in if nativeBridge = Absent then waitForBridgeReady nanoid (AwaitPost nativeBridge a d t) s
         else postMessage_body nanoid nativeBridge a d t s)"

text \<open>A timer fires: it is no longer armed, and its callback runs.\<close>

definition timer_fires :: "(nat \<Rightarrow> string) \<Rightarrow> nat \<Rightarrow> world \<Rightarrow> world" where
  "timer_fires nanoid tm s =
     (case timers s tm of
        None \<Rightarrow> s
      | Some (cb, delay) \<Rightarrow>
          (let s1 = s\<lparr>timers := (timers s)(tm := None)\<rparr>
           in case cb of
                RequestTimeout n i a t \<Rightarrow> request_timeout n i a t s1
              | CheckBridge w \<Rightarrow> checkBridge nanoid w s1))"

subsection \<open>dispatch\<close>

definition rejectPendingPromise :: "jsval \<Rightarrow> exn \<Rightarrow> world \<Rightarrow> world" where
  "rejectPendingPromise k reason s =
     (case pending_get s k of
        None \<Rightarrow> s
      | Some promiseCallbacks \<Rightarrow>
          pending_delete k
            (settle (promise promiseCallbacks) (Rejected reason) (clearTimeout (timer promiseCallbacks) s)))"

text \<open>The response branch: \<open>promiseCallbacks\<close> is the entry found under \<open>payload.id\<close>.\<close>

definition is_success :: "payload \<Rightarrow> bool" where
  "is_success p =
     ((case code p of None \<Rightarrow> False | Some c \<Rightarrow> 200 \<le> c \<and> c < 300) \<or>
      (code p = None \<and> errorMessage p = None))"

text \<open>\<open>payload.errorMessage || `Flutter request failed with code ${payload.code || "unknown"}`\<close>:
  \<open>||\<close> takes its right operand when the left one is falsy, which an empty string and
  the number 0 are.\<close>

definition failure_message :: "payload \<Rightarrow> part list" where
  "failure_message p =
     (let synthesized =
            [Lit ''Flutter request failed with code '',
             (case code p of
                None \<Rightarrow> Lit ''unknown''
              | Some c \<Rightarrow> if c \<noteq> 0 then Num c else Lit ''unknown'')]
      in case errorMessage p of
           None \<Rightarrow> synthesized
         | Some m \<Rightarrow> if m \<noteq> [] then [Lit m] else synthesized)"

definition dispatch_response :: "payload \<Rightarrow> pending_promise \<Rightarrow> world \<Rightarrow> world" where
  "dispatch_response p promiseCallbacks s =
     (let s1 = clearTimeout (timer promiseCallbacks) s;
          s2 = (if is_success p
                then settle (promise promiseCallbacks) (Resolved (data p)) s1
                else settle (promise promiseCallbacks)
                       (Rejected (ErrorWithCode (failure_message p) (code p))) s1)
      in pending_delete (msg_id p) s2)"

text \<open>The \<open>try\<close> block after \<open>JSON.parse\<close>. The result is the state and, unless dispatch
  returns here, the payload it goes on with. Reading \<open>payload.id\<close> of \<open>null\<close> inside the
  block throws into the \<open>catch\<close> block of dispatch.\<close>

definition dispatch_check :: "string \<Rightarrow> parsed \<Rightarrow> world \<Rightarrow> world \<times> payload option" where
  "dispatch_check messageJson v s =
     (if v = Falsy \<or> \<not> is_string (opt_id v) then
        (if pending_get s (opt_id v) \<noteq> None then
           (let s1 = console_error ''FlutterBridgeSDK: Received message is missing a valid ID.'' s
            in case v of
                 Falsy \<Rightarrow> (console_error ''FlutterBridgeSDK: Failed to parse message from Flutter:'' s1, None)
               | Envelope p \<Rightarrow>
                   (rejectPendingPromise (msg_id p)
                      (Error [Lit ''Received response from Flutter is missing a valid ID.'']) s1, Some p))
         else if truthy (opt_action v) \<and> listeners_get s (opt_action v) \<noteq> None then
           (let s1 = console_warn
                  ''FlutterBridgeSDK: Received event message might be malformed (missing id?), proceeding with action:'' s
            in case v of
                 Falsy \<Rightarrow> (s1, None)
               | Envelope p \<Rightarrow> (s1, Some p))
         else (console_error ''FlutterBridgeSDK: Received malformed message from Flutter.'' s, None))
      else (case v of Falsy \<Rightarrow> (s, None) | Envelope p \<Rightarrow> (s, Some p)))"

text \<open>The part of dispatch after the \<open>try\<close> statement.\<close>

definition dispatch_route :: "(nat \<Rightarrow> string) \<Rightarrow> payload \<Rightarrow> world \<Rightarrow> world" where
  "dispatch_route nanoid p s =
     (case pending_get s (msg_id p) of
        Some promiseCallbacks \<Rightarrow> dispatch_response p promiseCallbacks s
      | None \<Rightarrow>
          (if truthy (action p) then
             (case listeners_get s (action p) of
                Some listeners \<Rightarrow>
                  (let innerBridge = getBridge s (innerChannel (options s))
                   in if innerBridge = Absent
                      then waitForBridgeReady nanoid (AwaitDispatch p listeners innerBridge) s
                      else dispatch_event p listeners innerBridge s)
              | None \<Rightarrow>
                  console_warn ''FlutterBridgeSDK: Received message with unhandled action or ID: '' s)
           else console_warn ''FlutterBridgeSDK: Received message with unhandled action or ID: '' s))"

text \<open>\<open>JSON.parse\<close> is the platform's: \<open>parse\<close> gives what it returns, \<open>None\<close> when it
  throws.\<close>

definition dispatch ::
  "(string \<Rightarrow> parsed option) \<Rightarrow> (nat \<Rightarrow> string) \<Rightarrow> string \<Rightarrow> world \<Rightarrow> world" where
  "dispatch parse nanoid messageJson s =
     (let s0 = console_log (''FlutterBridgeSDK: Received message from Flutter: '' @ messageJson) s
      in case parse messageJson of
           None \<Rightarrow> console_error ''FlutterBridgeSDK: Failed to parse message from Flutter:'' s0
         | Some v \<Rightarrow>
             (case dispatch_check messageJson v s0 of
                (s1, None) \<Rightarrow> s1
              | (s1, Some p) \<Rightarrow> dispatch_route nanoid p s1))"

subsection \<open>The other variant of dispatch\<close>

text \<open>The repository holds a second copy of the class (src/unnamed/part_000) whose dispatch
  differs in the event branch only: it reads the inner channel and calls the handlers at
  once, without waiting for the bridges.\<close>

definition dispatch_route_part_000 :: "payload \<Rightarrow> world \<Rightarrow> world" where
  "dispatch_route_part_000 p s =
     (case pending_get s (msg_id p) of
        Some promiseCallbacks \<Rightarrow> dispatch_response p promiseCallbacks s
      | None \<Rightarrow>
          (if truthy (action p) then
             (case listeners_get s (action p) of
                Some listeners \<Rightarrow>
                  (let innerChannel = getBridge s (innerChannel (options s))
                   in dispatch_event p listeners innerChannel s)
              | None \<Rightarrow>
                  console_warn ''FlutterBridgeSDK: Received message with unhandled action or ID: '' s)
           else console_warn ''FlutterBridgeSDK: Received message with unhandled action or ID: '' s))"

definition dispatch_part_000 :: "(string \<Rightarrow> parsed option) \<Rightarrow> string \<Rightarrow> world \<Rightarrow> world" where
  "dispatch_part_000 parse messageJson s =
     (let s0 = console_log (''FlutterBridgeSDK: Received message from Flutter: '' @ messageJson) s
      in case parse messageJson of
           None \<Rightarrow> console_error ''FlutterBridgeSDK: Failed to parse message from Flutter:'' s0
         | Some v \<Rightarrow>
             (case dispatch_check messageJson v s0 of
                (s1, None) \<Rightarrow> s1
              | (s1, Some p) \<Rightarrow> dispatch_route_part_000 p s1))"

subsection \<open>listenMessage\<close>

text \<open>The closure \<open>cancel\<close>; it captures \<open>action\<close> only.\<close>

definition cancel :: "string \<Rightarrow> world \<Rightarrow> world" where
  "cancel a s =
     (case eventListeners s a of
        None \<Rightarrow> s
      | Some currentListeners \<Rightarrow>
          console_log (''FlutterBridgeSDK: No more listeners for action '' @ dquote @ a @ dquote @ '', removing entry.'')
            (s\<lparr>sets := (sets s)(currentListeners := []),
               eventListeners := (eventListeners s)(a := None)\<rparr>))"

text \<open>\<open>listenMessage\<close> returns the new state and the function it hands to the caller.\<close>

definition listenMessage :: "string \<Rightarrow> nat \<Rightarrow> world \<Rightarrow> world \<times> (world \<Rightarrow> world)" where
  "listenMessage a cb s0 =
     (let s = (if eventListeners s0 a = None
               then s0\<lparr>sets := (sets s0)(nextSet s0 := []),
                       eventListeners := (eventListeners s0)(a \<mapsto> nextSet s0),
                       nextSet := Suc (nextSet s0)\<rparr>
               else s0);
          listeners = (case eventListeners s0 a of None \<Rightarrow> nextSet s0 | Some r \<Rightarrow> r)
      in if cb \<in> set (sets s listeners) then
           (console_warn (''FlutterBridgeSDK: Listener already registered for action '' @ dquote @ a @ dquote @
                          '' with the same callback.'') s, cancel a)
         else
           (let s1 = (if length (sets s listeners) > 0
                      then console_warn
                             ''FlutterBridgeSDK: Listener already exists,the old one will be replaced with the new one.''
                             (s\<lparr>sets := (sets s)(listeners := [])\<rparr>)
                      else s);
                s2 = s1\<lparr>sets := (sets s1)(listeners := sets s1 listeners @ [cb])\<rparr>
            in (console_log (''FlutterBridgeSDK: Listener registered for action '' @ dquote @ a @ dquote) s2,
                cancel a)))"

section \<open>Runs of the system\<close>

text \<open>What can happen to an instance: the page calls \<open>postMessage\<close>, \<open>listenMessage\<close>
  or a cancel function it was given; the host calls \<open>dispatch\<close> or changes a property of
  \<open>window\<close>; a timer fires; the promise of a running handler settles. JavaScript runs
  the code between two \<open>await\<close>s without interruption, so each of these is one step.\<close>

datatype event =
    PostMessage string jsval "int option"
  | Dispatch string
  | ListenMessage string nat
  | Cancel string
  | TimerFires nat
  | HandlerSettles nat handler_result
  | HostSets string bridge

fun step :: "(string \<Rightarrow> parsed option) \<Rightarrow> (nat \<Rightarrow> string) \<Rightarrow> event \<Rightarrow> world \<Rightarrow> world" where
  "step parse nanoid (PostMessage a d t) s = postMessage nanoid a d t s"
| "step parse nanoid (Dispatch m) s = dispatch parse nanoid m s"
| "step parse nanoid (ListenMessage a cb) s = fst (listenMessage a cb s)"
| "step parse nanoid (Cancel a) s = cancel a s"
| "step parse nanoid (TimerFires tm) s = timer_fires nanoid tm s"
| "step parse nanoid (HandlerSettles k r) s = handler_settled k r s"
| "step parse nanoid (HostSets name b) s = s\<lparr>window := (window s)(name := b)\<rparr>"

definition run :: "(string \<Rightarrow> parsed option) \<Rightarrow> (nat \<Rightarrow> string) \<Rightarrow> event list \<Rightarrow> world \<Rightarrow> world" where
  "run parse nanoid es s = foldl (\<lambda>s e. step parse nanoid e s) s es"

inductive reachable :: "(string \<Rightarrow> parsed option) \<Rightarrow> (nat \<Rightarrow> string) \<Rightarrow> world \<Rightarrow> bool"
  for parse :: "string \<Rightarrow> parsed option" and nanoid :: "nat \<Rightarrow> string" where
  reachable_init: "reachable parse nanoid (FlutterBridgeSDK name timeout_opt inner_opt w)"
| reachable_step: "reachable parse nanoid s \<Longrightarrow> reachable parse nanoid (step parse nanoid e s)"

section \<open>Vocabulary of the properties\<close>

text \<open>The calls made to the resolve or reject function of promise \<open>n\<close>, in order.\<close>

definition calls :: "nat \<Rightarrow> world \<Rightarrow> settlement list" where
  "calls n s = map snd (filter (\<lambda>c. fst c = n) (settled s))"

text \<open>The ways \<open>postMessage\<close> and \<open>dispatch\<close> complete promise \<open>n\<close>: resolved by a
  response, rejected by a failure response, rejected by the timeout of its own request,
  rejected because the send failed.\<close>

fun completion_of :: "(nat \<Rightarrow> string) \<Rightarrow> nat \<Rightarrow> settlement \<Rightarrow> bool" where
  "completion_of nanoid n (Resolved v) = True"
| "completion_of nanoid n (Rejected (ErrorWithCode m c)) = True"
| "completion_of nanoid n (Rejected (Error m)) = (\<exists>a t. m = timeout_message a (nanoid n) t)"
| "completion_of nanoid n (Rejected TypeError) = True"
| "completion_of nanoid n (Rejected HostError) = True"

text \<open>Every entry of \<open>pendingPromises\<close> belongs to a promise that was created, sits under
  that promise's identifier, and has its timeout timer armed.\<close>

definition pending_ok :: "(nat \<Rightarrow> string) \<Rightarrow> world \<Rightarrow> bool" where
  "pending_ok nanoid s \<longleftrightarrow>
     (\<forall>i pp. pendingPromises s i = Some pp \<longrightarrow>
        promise pp < issued s \<and> nanoid (promise pp) = i \<and>
        (\<exists>a t. timers s (timer pp) = Some (RequestTimeout (promise pp) i a t, t)))"

text \<open>Every armed timeout timer belongs to an entry of \<open>pendingPromises\<close>, and timer numbers
  are not reused.\<close>

definition timers_ok :: "world \<Rightarrow> bool" where
  "timers_ok s \<longleftrightarrow>
     (\<forall>tm n i a t d. timers s tm = Some (RequestTimeout n i a t, d) \<longrightarrow>
        pendingPromises s i = Some \<lparr>promise = n, timer = tm\<rparr>) \<and>
     (\<forall>tm. timers s tm \<noteq> None \<longrightarrow> tm < nextTimer s)"

text \<open>A promise that was created has been completed once if its entry is gone and not at
  all if the entry is there; every completion is one of the four kinds.\<close>

definition calls_ok :: "(nat \<Rightarrow> string) \<Rightarrow> world \<Rightarrow> bool" where
  "calls_ok nanoid s \<longleftrightarrow>
     (\<forall>n. n < issued s \<longrightarrow>
        length (calls n s) = (if pendingPromises s (nanoid n) = None then 1 else 0)) \<and>
     (\<forall>c \<in> set (settled s). fst c < issued s \<and> completion_of nanoid (fst c) (snd c))"

definition correlated :: "(nat \<Rightarrow> string) \<Rightarrow> world \<Rightarrow> bool" where
  "correlated nanoid s \<longleftrightarrow> pending_ok nanoid s \<and> timers_ok s \<and> calls_ok nanoid s"

text \<open>The state of \<open>postMessage\<close> just before it calls the bridge: identifier drawn, timer
  armed, entry stored, message logged.\<close>

definition issue_state :: "(nat \<Rightarrow> string) \<Rightarrow> string \<Rightarrow> int option \<Rightarrow> world \<Rightarrow> world" where
  "issue_state nanoid a t s =
     s\<lparr>issued := Suc (issued s),
       timers := (timers s)(nextTimer s \<mapsto> (RequestTimeout (issued s) (nanoid (issued s)) a t, t)),
       nextTimer := Suc (nextTimer s),
       pendingPromises := (pendingPromises s)(nanoid (issued s) \<mapsto> \<lparr>promise = issued s, timer = nextTimer s\<rparr>),
       console := console s @ [(Info, ''FlutterBridgeSDK: Sending message to Flutter (id: '' @ nanoid (issued s) @ ''): '')]\<rparr>"

text \<open>How the correlation table can change between a state and a later one: identifiers and
  timer numbers are only drawn, never reused; an armed timer stays as it is until it is
  removed; an entry stays as it is until it is removed, and new entries sit under
  identifiers drawn later.\<close>

definition evolves :: "(nat \<Rightarrow> string) \<Rightarrow> world \<Rightarrow> world \<Rightarrow> bool" where
  "evolves nanoid s s' \<longleftrightarrow>
     issued s \<le> issued s' \<and> nextTimer s \<le> nextTimer s' \<and>
     (\<forall>tm. tm < nextTimer s \<longrightarrow> timers s' tm = None \<or> timers s' tm = timers s tm) \<and>
     (\<forall>i. pendingPromises s' i = None \<or> pendingPromises s' i = pendingPromises s i \<or>
          (\<exists>n. issued s \<le> n \<and> i = nanoid n))"

text \<open>The handlers registered for an action: the content of the Set that \<open>eventListeners\<close>
  holds for it.\<close>

definition handlers_of :: "world \<Rightarrow> string \<Rightarrow> nat list" where
  "handlers_of s a = (case eventListeners s a of None \<Rightarrow> [] | Some r \<Rightarrow> sets s r)"

text \<open>A call of \<open>postMessage\<close> suspended in \<open>waitForBridgeReady\<close> holds an undefined
  \<open>nativeBridge\<close>. A dispatch suspended there holds a Set that exists, and the only
  action that can still refer to this Set is the action of the envelope it is about.\<close>

fun waiter_ok :: "world \<Rightarrow> waiter \<Rightarrow> bool" where
  "waiter_ok s (AwaitPost b a d t) = (b = Absent)"
| "waiter_ok s (AwaitDispatch p r b) =
     (r < nextSet s \<and> (\<exists>a. action p = JStr a \<and> (\<forall>c. eventListeners s c = Some r \<longrightarrow> c = a)))"

text \<open>The registry is consistent: every action in it refers to a Set of its own with
  exactly one handler, a Set no action refers to is empty, and every suspended dispatch
  is as above.\<close>

definition registry_ok :: "world \<Rightarrow> bool" where
  "registry_ok s \<longleftrightarrow>
     (\<forall>a r. eventListeners s a = Some r \<longrightarrow> r < nextSet s \<and> length (sets s r) = 1) \<and>
     (\<forall>a b r. eventListeners s a = Some r \<longrightarrow> eventListeners s b = Some r \<longrightarrow> a = b) \<and>
     (\<forall>r. (\<forall>a. eventListeners s a \<noteq> Some r) \<longrightarrow> sets s r = []) \<and>
     (\<forall>tm w d. timers s tm = Some (CheckBridge w, d) \<longrightarrow> waiter_ok s w)"

text \<open>Changes that leave the registry and the handler calls alone and suspend nothing new;
  changes that leave the registry alone; and changes that call only handlers that are
  registered, at the time of the call, for the action of the envelope they are called with.\<close>

definition quiet :: "world \<Rightarrow> world \<Rightarrow> bool" where
  "quiet s s' \<longleftrightarrow>
     eventListeners s' = eventListeners s \<and> sets s' = sets s \<and> nextSet s' = nextSet s \<and>
     invoked s' = invoked s \<and>
     (\<forall>tm w d. timers s' tm = Some (CheckBridge w, d) \<longrightarrow> timers s tm = Some (CheckBridge w, d))"

definition keeps_registry :: "world \<Rightarrow> world \<Rightarrow> bool" where
  "keeps_registry s s' \<longleftrightarrow>
     eventListeners s' = eventListeners s \<and> sets s' = sets s \<and> nextSet s' = nextSet s"

definition invokes_registered :: "world \<Rightarrow> world \<Rightarrow> bool" where
  "invokes_registered s s' \<longleftrightarrow>
     (\<exists>new. invoked s' = invoked s @ new \<and>
        (\<forall>c \<in> set new. \<exists>a. action (snd c) = JStr a \<and> handlers_of s a = [fst c]))"

section \<open>Concrete inputs\<close>

text \<open>An identifier generator without collisions: \<open>x\<close>, \<open>xx\<close>, \<open>xxx\<close>, ...\<close>

definition example_nanoid :: "nat \<Rightarrow> string" where
  "example_nanoid n = replicate (Suc n) CHR ''x''"

text \<open>A page where the host has injected both bridges, one where it has injected the
  outbound bridge only, one where the \<open>postMessage\<close> of the inner bridge throws, one
  where the inner bridge is an object without a \<open>postMessage\<close> function, and one where
  the \<open>postMessage\<close> of the outbound bridge throws.\<close>

definition both_bridges :: "string \<Rightarrow> bridge" where
  "both_bridges name =
     (if name = ''client_to_native_channel'' \<or> name = ''native_to_client_channel''
      then Sender True else Absent)"

definition outbound_only :: "string \<Rightarrow> bridge" where
  "outbound_only name = (if name = ''client_to_native_channel'' then Sender True else Absent)"

definition inner_throws :: "string \<Rightarrow> bridge" where
  "inner_throws name =
     (if name = ''client_to_native_channel'' then Sender True
      else if name = ''native_to_client_channel'' then Sender False
      else Absent)"

definition inner_unusable :: "string \<Rightarrow> bridge" where
  "inner_unusable name =
     (if name = ''client_to_native_channel'' then Sender True
      else if name = ''native_to_client_channel'' then NoPostMessage
      else Absent)"

definition outbound_throws :: "string \<Rightarrow> bridge" where
  "outbound_throws name =
     (if name = ''client_to_native_channel'' then Sender False
      else if name = ''native_to_client_channel'' then Sender True
      else Absent)"

definition event_7_payload :: payload where
  "event_7_payload = \<lparr>action = JStr ''evt'', msg_id = JStr ''7'', data = JNum 1,
                        code = None, errorMessage = None\<rparr>"

definition q :: "string \<Rightarrow> string" where
  "q s = dquote @ s @ dquote"

text \<open>Messages of the host, as JSON text.\<close>

definition response_x_200 :: string where
  "response_x_200 = ''{'' @ q ''id'' @ '':'' @ q ''x'' @ '','' @ q ''code'' @ '':200,'' @ q ''data'' @ '':1}''"

definition response_xx_bare :: string where
  "response_xx_bare = ''{'' @ q ''id'' @ '':'' @ q ''xx'' @ '','' @ q ''data'' @ '':2}''"

definition response_x_500 :: string where
  "response_x_500 = ''{'' @ q ''id'' @ '':'' @ q ''x'' @ '','' @ q ''code'' @ '':500,'' @
                     q ''errorMessage'' @ '':'' @ q ''bad'' @ ''}''"

definition response_x_0 :: string where
  "response_x_0 = ''{'' @ q ''id'' @ '':'' @ q ''x'' @ '','' @ q ''code'' @ '':0}''"

definition event_7 :: string where
  "event_7 = ''{'' @ q ''action'' @ '':'' @ q ''evt'' @ '','' @ q ''id'' @ '':'' @ q ''7'' @ '','' @
              q ''data'' @ '':1}''"

text \<open>What \<open>JSON.parse\<close> returns on these messages; it throws on every other text used
  below, such as \<open>{oops\<close>.\<close>

definition example_parse :: "string \<Rightarrow> parsed option" where
  "example_parse m =
     (if m = response_x_200 then
        Some (Envelope \<lparr>action = JUndefined, msg_id = JStr ''x'', data = JNum 1,
                        code = Some 200, errorMessage = None\<rparr>)
      else if m = response_xx_bare then
        Some (Envelope \<lparr>action = JUndefined, msg_id = JStr ''xx'', data = JNum 2,
                        code = None, errorMessage = None\<rparr>)
      else if m = response_x_500 then
        Some (Envelope \<lparr>action = JUndefined, msg_id = JStr ''x'', data = JUndefined,
                        code = Some 500, errorMessage = Some ''bad''\<rparr>)
      else if m = response_x_0 then
        Some (Envelope \<lparr>action = JUndefined, msg_id = JStr ''x'', data = JUndefined,
                        code = Some 0, errorMessage = None\<rparr>)
      else if m = event_7 then
        Some (Envelope \<lparr>action = JStr ''evt'', msg_id = JStr ''7'', data = JNum 1,
                        code = None, errorMessage = None\<rparr>)
      else None)"

text \<open>A fresh instance on each page and on a page without bridges, and the instance
  after one request \<open>getUserInfo\<close> has been sent.\<close>

definition page_ready :: world where
  "page_ready = FlutterBridgeSDK None None None both_bridges"

definition page_outbound_only :: world where
  "page_outbound_only = FlutterBridgeSDK None None None outbound_only"

definition page_inner_throws :: world where
  "page_inner_throws = FlutterBridgeSDK None None None inner_throws"

definition page_inner_unusable :: world where
  "page_inner_unusable = FlutterBridgeSDK None None None inner_unusable"

definition page_outbound_throws :: world where
  "page_outbound_throws = FlutterBridgeSDK None None None outbound_throws"

definition page_no_bridges :: world where
  "page_no_bridges = FlutterBridgeSDK None None None (\<lambda>name. Absent)"

text \<open>A page without bridges on which \<open>postMessage\<close> is called, and the host injects
  both bridges afterwards, before the next poll.\<close>

definition late_bridges :: world where
  "late_bridges = run example_parse example_nanoid
     [PostMessage ''getUserInfo'' JNull None,
      HostSets ''client_to_native_channel'' (Sender True),
      HostSets ''native_to_client_channel'' (Sender True)] page_no_bridges"

definition one_request :: world where
  "one_request = postMessage example_nanoid ''getUserInfo'' JNull None page_ready"

section \<open>The correlation table stays consistent\<close>

lemma correlated_frame:
  assumes "pendingPromises s' = pendingPromises s" "timers s' = timers s" "nextTimer s' = nextTimer s"
    "issued s' = issued s" "settled s' = settled s"
  shows "correlated nanoid s' = correlated nanoid s"
  using assms by (simp add: correlated_def pending_ok_def timers_ok_def calls_ok_def calls_def)

lemma correlated_init: "correlated nanoid (FlutterBridgeSDK name t i w)"
  by (simp add: correlated_def pending_ok_def timers_ok_def calls_ok_def FlutterBridgeSDK_def calls_def)

lemma timers_ok_fresh:
  assumes "timers_ok s"
  shows "timers s (nextTimer s) = None"
proof (rule ccontr)
  assume "timers s (nextTimer s) \<noteq> None"
  with assms have "nextTimer s < nextTimer s"
    unfolding timers_ok_def by blast
  then show False by simp
qed

lemma correlated_poll:
  assumes inv: "correlated nanoid s"
    and p: "pendingPromises s' = pendingPromises s"
    and t: "timers s' = (timers s)(nextTimer s \<mapsto> (CheckBridge w, d))"
    and nt: "nextTimer s' = Suc (nextTimer s)"
    and i: "issued s' = issued s" and st: "settled s' = settled s"
  shows "correlated nanoid s'"
proof -
  from inv have po: "pending_ok nanoid s" and tk: "timers_ok s" and co: "calls_ok nanoid s"
    by (simp_all add: correlated_def)
  have fresh: "timers s (nextTimer s) = None"
    using tk by (rule timers_ok_fresh)
  have "pending_ok nanoid s'"
    unfolding pending_ok_def
  proof (intro allI impI)
    fix j pp assume "pendingPromises s' j = Some pp"
    then have h: "pendingPromises s j = Some pp" by (simp add: p)
    with po obtain a t' where *: "promise pp < issued s" "nanoid (promise pp) = j"
      "timers s (timer pp) = Some (RequestTimeout (promise pp) j a t', t')"
      unfolding pending_ok_def by blast
    from *(3) fresh have "timer pp \<noteq> nextTimer s" by auto
    with * show "promise pp < issued s' \<and> nanoid (promise pp) = j \<and>
        (\<exists>a t. timers s' (timer pp) = Some (RequestTimeout (promise pp) j a t, t))"
      by (simp add: i t)
  qed
  moreover have "timers_ok s'"
    using tk unfolding timers_ok_def by (auto simp: t nt p less_Suc_eq split: if_splits)
  moreover have "calls_ok nanoid s'"
    using co by (simp add: calls_ok_def calls_def i st p)
  ultimately show ?thesis by (simp add: correlated_def)
qed

lemma correlated_issue:
  assumes inv: "correlated nanoid s" and inj: "inj nanoid"
    and p: "pendingPromises s' = (pendingPromises s)(nanoid (issued s) \<mapsto> \<lparr>promise = issued s, timer = nextTimer s\<rparr>)"
    and t: "timers s' = (timers s)(nextTimer s \<mapsto> (RequestTimeout (issued s) (nanoid (issued s)) a t, t))"
    and nt: "nextTimer s' = Suc (nextTimer s)"
    and i: "issued s' = Suc (issued s)" and st: "settled s' = settled s"
  shows "correlated nanoid s'"
proof -
  from inv have po: "pending_ok nanoid s" and tk: "timers_ok s" and co: "calls_ok nanoid s"
    by (simp_all add: correlated_def)
  have fresh: "timers s (nextTimer s) = None"
    using tk by (rule timers_ok_fresh)
  have unused: "pendingPromises s (nanoid (issued s)) = None"
  proof (rule ccontr)
    assume "pendingPromises s (nanoid (issued s)) \<noteq> None"
    then obtain pp where "pendingPromises s (nanoid (issued s)) = Some pp" by auto
    with po have "promise pp < issued s" "nanoid (promise pp) = nanoid (issued s)"
      unfolding pending_ok_def by blast+
    with inj show False by (auto dest: injD)
  qed
  have nocalls: "calls (issued s) s = []"
    using co unfolding calls_ok_def calls_def by (auto simp: filter_empty_conv)
  have "pending_ok nanoid s'"
    unfolding pending_ok_def
  proof (intro allI impI)
    fix j pp assume h: "pendingPromises s' j = Some pp"
    show "promise pp < issued s' \<and> nanoid (promise pp) = j \<and>
        (\<exists>a t. timers s' (timer pp) = Some (RequestTimeout (promise pp) j a t, t))"
    proof (cases "j = nanoid (issued s)")
      case True
      with h have "pp = \<lparr>promise = issued s, timer = nextTimer s\<rparr>" by (simp add: p)
      with True show ?thesis by (simp add: i t)
    next
      case False
      with h have h': "pendingPromises s j = Some pp" by (simp add: p)
      with po obtain a' t' where *: "promise pp < issued s" "nanoid (promise pp) = j"
        "timers s (timer pp) = Some (RequestTimeout (promise pp) j a' t', t')"
        unfolding pending_ok_def by blast
      from *(3) fresh have "timer pp \<noteq> nextTimer s" by auto
      with * show ?thesis by (simp add: i t)
    qed
  qed
  moreover have "timers_ok s'"
    unfolding timers_ok_def
  proof (intro conjI allI impI)
    fix tm n j a' t' d assume h: "timers s' tm = Some (RequestTimeout n j a' t', d)"
    show "pendingPromises s' j = Some \<lparr>promise = n, timer = tm\<rparr>"
    proof (cases "tm = nextTimer s")
      case True
      with h have "n = issued s" "j = nanoid (issued s)" by (auto simp: t)
      with True show ?thesis by (simp add: p)
    next
      case False
      with h have "timers s tm = Some (RequestTimeout n j a' t', d)" by (simp add: t)
      with tk have *: "pendingPromises s j = Some \<lparr>promise = n, timer = tm\<rparr>"
        unfolding timers_ok_def by blast
      with unused have "j \<noteq> nanoid (issued s)" by auto
      with * show ?thesis by (simp add: p)
    qed
  next
    fix tm assume "timers s' tm \<noteq> None"
    then show "tm < nextTimer s'"
      using tk unfolding timers_ok_def by (auto simp: t nt less_Suc_eq split: if_splits)
  qed
  moreover have "calls_ok nanoid s'"
    unfolding calls_ok_def
  proof (intro conjI allI impI ballI)
    fix n assume "n < issued s'"
    then consider "n = issued s" | "n < issued s" by (auto simp: i less_Suc_eq)
    then show "length (calls n s') = (if pendingPromises s' (nanoid n) = None then 1 else 0)"
    proof cases
      case 1
      then show ?thesis using nocalls by (simp add: p calls_def st)
    next
      case 2
      then have "nanoid n \<noteq> nanoid (issued s)" using inj by (auto dest: injD)
      with 2 co show ?thesis by (simp add: calls_ok_def calls_def st p)
    qed
  next
    fix c assume "c \<in> set (settled s')"
    then show "fst c < issued s'" "completion_of nanoid (fst c) (snd c)"
      using co by (auto simp: calls_ok_def st i less_Suc_eq)
  qed
  ultimately show ?thesis by (simp add: correlated_def)
qed

lemma correlated_complete:
  assumes inv: "correlated nanoid s" and inj: "inj nanoid"
    and pend: "pendingPromises s j = Some pp"
    and p: "pendingPromises s' = (pendingPromises s)(j := None)"
    and t: "timers s' = (timers s)(timer pp := None)"
    and nt: "nextTimer s' = nextTimer s"
    and i: "issued s' = issued s"
    and st: "settled s' = settled s @ [(promise pp, r)]"
    and kind: "completion_of nanoid (promise pp) r"
  shows "correlated nanoid s'"
proof -
  from inv have po: "pending_ok nanoid s" and tk: "timers_ok s" and co: "calls_ok nanoid s"
    by (simp_all add: correlated_def)
  from po pend obtain a0 t0 where pp: "promise pp < issued s" "nanoid (promise pp) = j"
    "timers s (timer pp) = Some (RequestTimeout (promise pp) j a0 t0, t0)"
    unfolding pending_ok_def by blast
  have "pending_ok nanoid s'"
    unfolding pending_ok_def
  proof (intro allI impI)
    fix k qq assume h: "pendingPromises s' k = Some qq"
    then have kj: "k \<noteq> j" and h': "pendingPromises s k = Some qq"
      by (auto simp: p split: if_splits)
    with po obtain a' t' where *: "promise qq < issued s" "nanoid (promise qq) = k"
      "timers s (timer qq) = Some (RequestTimeout (promise qq) k a' t', t')"
      unfolding pending_ok_def by blast
    have "timer qq \<noteq> timer pp"
    proof
      assume "timer qq = timer pp"
      with *(3) pp(3) have "k = j" by simp
      with kj show False by simp
    qed
    with * show "promise qq < issued s' \<and> nanoid (promise qq) = k \<and>
        (\<exists>a t. timers s' (timer qq) = Some (RequestTimeout (promise qq) k a t, t))"
      by (simp add: i t)
  qed
  moreover have "timers_ok s'"
    unfolding timers_ok_def
  proof (intro conjI allI impI)
    fix tm n k a' t' d assume h: "timers s' tm = Some (RequestTimeout n k a' t', d)"
    then have ne: "tm \<noteq> timer pp" and h': "timers s tm = Some (RequestTimeout n k a' t', d)"
      by (auto simp: t split: if_splits)
    with tk have *: "pendingPromises s k = Some \<lparr>promise = n, timer = tm\<rparr>"
      unfolding timers_ok_def by blast
    have "k \<noteq> j"
    proof
      assume "k = j"
      with * pend have "timer pp = tm" by auto
      with ne show False by simp
    qed
    with * show "pendingPromises s' k = Some \<lparr>promise = n, timer = tm\<rparr>" by (simp add: p)
  next
    fix tm assume "timers s' tm \<noteq> None"
    then show "tm < nextTimer s'"
      using tk unfolding timers_ok_def by (auto simp: t nt split: if_splits)
  qed
  moreover have "calls_ok nanoid s'"
    unfolding calls_ok_def
  proof (intro conjI allI impI ballI)
    fix n assume n: "n < issued s'"
    show "length (calls n s') = (if pendingPromises s' (nanoid n) = None then 1 else 0)"
    proof (cases "n = promise pp")
      case True
      with co pp pend have "length (calls n s) = 0" by (auto simp: calls_ok_def)
      with True pp show ?thesis by (simp add: calls_def st p)
    next
      case False
      then have "nanoid n \<noteq> j" using pp(2) inj by (auto dest: injD)
      with False n co show ?thesis by (simp add: calls_ok_def calls_def st p i)
    qed
  next
    fix c assume "c \<in> set (settled s')"
    then show "fst c < issued s'" "completion_of nanoid (fst c) (snd c)"
      using co pp kind by (auto simp: calls_ok_def st i)
  qed
  ultimately show ?thesis by (simp add: correlated_def)
qed



lemma postMessage_body_sent:
  "postMessage_body nanoid (Sender True) a d t s =
     (issue_state nanoid a t s)\<lparr>outbox := outbox s @ [(channelName s,
        \<lparr>action = JStr a, msg_id = JStr (nanoid (issued s)), data = d, code = None, errorMessage = None\<rparr>)]\<rparr>"
  by (simp add: postMessage_body_def setTimeout_def bridge_postMessage_def issue_state_def Let_def console_log_def)

lemma postMessage_body_failed:
  assumes "b \<noteq> Sender True"
  shows "postMessage_body nanoid b a d t s =
     (issue_state nanoid a t s)
       \<lparr>console := console (issue_state nanoid a t s) @
           [(Err, ''FlutterBridgeSDK: Error sending message (id: '' @ nanoid (issued s) @ ''):'')],
        timers := (timers (issue_state nanoid a t s))(nextTimer s := None),
        pendingPromises := (pendingPromises (issue_state nanoid a t s))(nanoid (issued s) := None),
        settled := settled s @ [(issued s, Rejected (if b = Sender False then HostError else TypeError))]\<rparr>"
  using assms
  by (cases b) (simp_all add: postMessage_body_def setTimeout_def bridge_postMessage_def issue_state_def Let_def
      console_log_def console_error_def clearTimeout_def settle_def)


lemma correlated_issue_state:
  assumes "correlated nanoid s" and "inj nanoid"
  shows "correlated nanoid (issue_state nanoid a t s)"
  by (rule correlated_issue [OF assms, where a = a and t = t]) (simp_all add: issue_state_def)

lemma correlated_postMessage_body_sent:
  assumes inv: "correlated nanoid s" and inj: "inj nanoid"
  shows "correlated nanoid (postMessage_body nanoid (Sender True) a d t s)"
proof -
  have "correlated nanoid (issue_state nanoid a t s)"
    using inv inj by (rule correlated_issue_state)
  moreover have "correlated nanoid (postMessage_body nanoid (Sender True) a d t s) =
      correlated nanoid (issue_state nanoid a t s)"
    by (rule correlated_frame) (simp_all add: postMessage_body_sent)
  ultimately show ?thesis by simp
qed

lemma correlated_postMessage_body_failed:
  assumes inv: "correlated nanoid s" and inj: "inj nanoid" and b: "b \<noteq> Sender True"
  shows "correlated nanoid (postMessage_body nanoid b a d t s)"
proof -
  define s' where "s' = postMessage_body nanoid b a d t s"
  have pend: "pendingPromises (issue_state nanoid a t s) (nanoid (issued s)) =
      Some \<lparr>promise = issued s, timer = nextTimer s\<rparr>"
    by (simp add: issue_state_def)
  have 1: "pendingPromises s' = (pendingPromises (issue_state nanoid a t s))(nanoid (issued s) := None)"
    and 2: "timers s' = (timers (issue_state nanoid a t s))(nextTimer s := None)"
    and 3: "nextTimer s' = nextTimer (issue_state nanoid a t s)"
    and 4: "issued s' = issued (issue_state nanoid a t s)"
    and 5: "settled s' = settled (issue_state nanoid a t s) @
               [(issued s, Rejected (if b = Sender False then HostError else TypeError))]"
    unfolding s'_def by (simp_all add: postMessage_body_failed [OF b] issue_state_def)
  have 6: "completion_of nanoid (promise \<lparr>promise = issued s, timer = nextTimer s\<rparr>)
              (Rejected (if b = Sender False then HostError else TypeError))"
    by (cases "b = Sender False") simp_all
  have "correlated nanoid s'"
    by (rule correlated_complete [OF correlated_issue_state [OF inv inj] inj pend _ _ _ _ _ 6])
       (simp_all add: 1 2 3 4 5)
  then show ?thesis by (simp add: s'_def)
qed

lemma correlated_postMessage_body:
  assumes inv: "correlated nanoid s" and inj: "inj nanoid"
  shows "correlated nanoid (postMessage_body nanoid b a d t s)"
  using assms by (cases "b = Sender True") (simp_all add: correlated_postMessage_body_sent correlated_postMessage_body_failed)

lemma dispatch_event_frame:
  "pendingPromises (dispatch_event p l b s) = pendingPromises s \<and>
   timers (dispatch_event p l b s) = timers s \<and>
   nextTimer (dispatch_event p l b s) = nextTimer s \<and>
   issued (dispatch_event p l b s) = issued s \<and>
   settled (dispatch_event p l b s) = settled s"
proof -
  have "pendingPromises (foldl (call_handler p b) s xs) = pendingPromises s \<and>
   timers (foldl (call_handler p b) s xs) = timers s \<and>
   nextTimer (foldl (call_handler p b) s xs) = nextTimer s \<and>
   issued (foldl (call_handler p b) s xs) = issued s \<and>
   settled (foldl (call_handler p b) s xs) = settled s" for xs
    by (induction xs arbitrary: s) (simp_all add: call_handler_def)
  then show ?thesis by (simp add: dispatch_event_def)
qed

lemma correlated_dispatch_event:
  "correlated nanoid (dispatch_event p l b s) = correlated nanoid s"
  by (rule correlated_frame) (simp_all add: dispatch_event_frame)

lemma correlated_checkBridge:
  assumes inv: "correlated nanoid s" and inj: "inj nanoid"
  shows "correlated nanoid (checkBridge nanoid w s)"
proof (cases "is_ready (getBridge s (channelName s)) \<and> is_ready (getBridge s (innerChannel (options s)))")
  case True
  then have "checkBridge nanoid w s = resume nanoid w s" by (simp add: checkBridge_def)
  then show ?thesis
    using inv inj by (cases w) (simp_all add: correlated_postMessage_body correlated_dispatch_event)
next
  case False
  then have eq: "checkBridge nanoid w s = snd (setTimeout (CheckBridge w) (Some 100) s)"
    by (auto simp: checkBridge_def Let_def)
  show ?thesis
    unfolding eq by (rule correlated_poll [OF inv, where w = w and d = "Some 100"]) (simp_all add: setTimeout_def)
qed

lemma correlated_postMessage:
  assumes "correlated nanoid s" and "inj nanoid"
  shows "correlated nanoid (postMessage nanoid a d t s)"
  using assms
  by (simp add: postMessage_def waitForBridgeReady_def Let_def correlated_checkBridge correlated_postMessage_body)

lemma correlated_dispatch_response:
  assumes inv: "correlated nanoid s" and inj: "inj nanoid"
    and pend: "pendingPromises s i = Some pp" and id: "msg_id p = JStr i"
  shows "correlated nanoid (dispatch_response p pp s)"
proof -
  define r where "r = (if is_success p then Resolved (data p) else Rejected (ErrorWithCode (failure_message p) (code p)))"
  have k: "completion_of nanoid (promise pp) r" by (simp add: r_def)
  show ?thesis
    by (rule correlated_complete [OF inv inj pend _ _ _ _ _ k])
      (simp_all add: dispatch_response_def id settle_def clearTimeout_def r_def Let_def)
qed

lemma correlated_timer_fires:
  assumes inv: "correlated nanoid s" and inj: "inj nanoid"
  shows "correlated nanoid (timer_fires nanoid tm s)"
proof (cases "timers s tm")
  case None
  then show ?thesis using inv by (simp add: timer_fires_def)
next
  case (Some cd)
  obtain cb d where cd: "cd = (cb, d)" by (cases cd)
  show ?thesis
  proof (cases cb)
    case (RequestTimeout n i a t)
    from inv have tk: "timers_ok s" by (simp add: correlated_def)
    with Some cd RequestTimeout have pend: "pendingPromises s i = Some \<lparr>promise = n, timer = tm\<rparr>"
      unfolding timers_ok_def by blast
    from inv pend have ni: "nanoid n = i"
      unfolding correlated_def pending_ok_def by fastforce
    have eq: "timer_fires nanoid tm s =
        s\<lparr>timers := (timers s)(tm := None), pendingPromises := (pendingPromises s)(i := None),
          settled := settled s @ [(n, Rejected (Error (timeout_message a i t)))]\<rparr>"
      using Some cd RequestTimeout pend
      by (simp add: timer_fires_def request_timeout_def settle_def)
    show ?thesis
      unfolding eq
      by (rule correlated_complete [OF inv inj pend, where r = "Rejected (Error (timeout_message a i t))"])
        (use ni in \<open>auto intro: exI [of _ a] exI [of _ t]\<close>)
  next
    case (CheckBridge w)
    have "correlated nanoid (s\<lparr>timers := (timers s)(tm := None)\<rparr>)"
    proof -
      from inv have po: "pending_ok nanoid s" and tk: "timers_ok s" and co: "calls_ok nanoid s"
        by (simp_all add: correlated_def)
      have "pending_ok nanoid (s\<lparr>timers := (timers s)(tm := None)\<rparr>)"
        unfolding pending_ok_def
      proof (intro allI impI)
        fix j pp assume "pendingPromises (s\<lparr>timers := (timers s)(tm := None)\<rparr>) j = Some pp"
        then have "pendingPromises s j = Some pp" by simp
        with po obtain a t where *: "promise pp < issued s" "nanoid (promise pp) = j"
          "timers s (timer pp) = Some (RequestTimeout (promise pp) j a t, t)"
          unfolding pending_ok_def by blast
        with Some cd CheckBridge have "timer pp \<noteq> tm" by auto
        with * show "promise pp < issued (s\<lparr>timers := (timers s)(tm := None)\<rparr>) \<and> nanoid (promise pp) = j \<and>
          (\<exists>a t. timers (s\<lparr>timers := (timers s)(tm := None)\<rparr>) (timer pp) = Some (RequestTimeout (promise pp) j a t, t))"
          by simp
      qed
      moreover have "timers_ok (s\<lparr>timers := (timers s)(tm := None)\<rparr>)"
        using tk unfolding timers_ok_def by (auto split: if_splits)
      moreover have "calls_ok nanoid (s\<lparr>timers := (timers s)(tm := None)\<rparr>)"
        using co by (simp add: calls_ok_def calls_def)
      ultimately show ?thesis by (simp add: correlated_def)
    qed
    then have "correlated nanoid (checkBridge nanoid w (s\<lparr>timers := (timers s)(tm := None)\<rparr>))"
      using inj by (rule correlated_checkBridge)
    then show ?thesis
      using Some cd CheckBridge by (simp add: timer_fires_def)
  qed
qed


lemma pending_get_string:
  "pending_get s v = Some pp \<Longrightarrow> \<exists>i. v = JStr i \<and> pendingPromises s i = Some pp"
  by (cases v) simp_all

lemma dispatch_check_console:
  "\<exists>c. fst (dispatch_check m v s) = s\<lparr>console := c\<rparr>"
proof (cases v)
  case Falsy
  then show ?thesis
    by (auto simp: dispatch_check_def console_error_def console_warn_def intro: exI)
next
  case (Envelope p)
  show ?thesis
  proof (cases "is_string (msg_id p)")
    case True
    with Envelope have "fst (dispatch_check m v s) = s" by (simp add: dispatch_check_def)
    moreover have "s = s\<lparr>console := console s\<rparr>" by simp
    ultimately show ?thesis by metis
  next
    case False
    then have "pending_get s (msg_id p) = None" by (cases "msg_id p") simp_all
    with Envelope False show ?thesis
      by (auto simp: dispatch_check_def console_error_def console_warn_def Let_def intro: exI)
  qed
qed

lemma dispatch_check_payload:
  "snd (dispatch_check m v s) = Some p \<Longrightarrow> v = Envelope p"
  by (cases v) (auto simp: dispatch_check_def Let_def split: if_splits)

lemma correlated_console: "correlated nanoid (s\<lparr>console := c\<rparr>) = correlated nanoid s"
  by (rule correlated_frame) simp_all

lemma correlated_dispatch_route:
  assumes inv: "correlated nanoid s" and inj: "inj nanoid"
  shows "correlated nanoid (dispatch_route nanoid p s)"
proof (cases "pending_get s (msg_id p)")
  case (Some pp)
  then obtain i where "msg_id p = JStr i" "pendingPromises s i = Some pp"
    by (auto dest: pending_get_string)
  with inv inj Some show ?thesis
    by (simp add: dispatch_route_def correlated_dispatch_response)
next
  case None
  then show ?thesis
    using inv inj
    by (auto simp: dispatch_route_def Let_def waitForBridgeReady_def correlated_checkBridge
        correlated_dispatch_event console_warn_def correlated_console split: option.splits)
qed

lemma correlated_dispatch:
  assumes inv: "correlated nanoid s" and inj: "inj nanoid"
  shows "correlated nanoid (dispatch parse nanoid m s)"
proof (cases "parse m")
  case None
  then show ?thesis
    using inv by (simp add: dispatch_def console_log_def console_error_def correlated_console)
next
  case (Some v)
  define s0 where "s0 = console_log (''FlutterBridgeSDK: Received message from Flutter: '' @ m) s"
  obtain s1 r where chk: "dispatch_check m v s0 = (s1, r)" by (cases "dispatch_check m v s0")
  obtain c where "s1 = s0\<lparr>console := c\<rparr>"
    using dispatch_check_console [of m v s0] chk by auto
  then have c1: "correlated nanoid s1"
    using inv by (simp add: s0_def console_log_def correlated_console)
  have "dispatch parse nanoid m s = (case r of None \<Rightarrow> s1 | Some p \<Rightarrow> dispatch_route nanoid p s1)"
    using Some chk by (simp add: dispatch_def s0_def)
  then show ?thesis
    using c1 inj by (cases r) (simp_all add: correlated_dispatch_route)
qed

lemma correlated_listenMessage:
  "correlated nanoid (fst (listenMessage a cb s)) = correlated nanoid s"
  by (rule correlated_frame) (simp_all add: listenMessage_def Let_def console_warn_def console_log_def)

lemma correlated_cancel:
  "correlated nanoid (cancel a s) = correlated nanoid s"
  by (rule correlated_frame) (simp_all add: cancel_def console_log_def split: option.splits)

lemma correlated_handler_settled:
  "correlated nanoid (handler_settled k r s) = correlated nanoid s"
  by (rule correlated_frame)
    (auto simp: handler_settled_def ack_failure_def opt_postMessage_def bridge_postMessage_def Let_def
      console_error_def split: handler_result.splits bridge.splits sum.splits)

lemma correlated_step:
  assumes "correlated nanoid s" and "inj nanoid"
  shows "correlated nanoid (step parse nanoid e s)"
proof (cases e)
  case (HostSets name b)
  have "correlated nanoid (s\<lparr>window := (window s)(name := b)\<rparr>) = correlated nanoid s"
    by (rule correlated_frame) simp_all
  with assms HostSets show ?thesis by simp
qed (use assms in \<open>simp_all add: correlated_postMessage correlated_dispatch correlated_listenMessage
      correlated_cancel correlated_timer_fires correlated_handler_settled\<close>)

lemma reachable_correlated:
  assumes "reachable parse nanoid s" and "inj nanoid"
  shows "correlated nanoid s"
  using assms by (induction rule: reachable.induct) (simp_all add: correlated_init correlated_step)


section \<open>Facts about the concrete inputs\<close>

lemma example_messages_distinct:
  "response_x_200 \<noteq> response_xx_bare" "response_x_200 \<noteq> response_x_500" "response_x_200 \<noteq> response_x_0"
  "response_xx_bare \<noteq> response_x_500" "response_xx_bare \<noteq> response_x_0" "response_x_500 \<noteq> response_x_0"
  "event_7 \<noteq> response_x_200" "event_7 \<noteq> response_xx_bare" "event_7 \<noteq> response_x_500" "event_7 \<noteq> response_x_0"
  by (simp_all add: response_x_200_def response_xx_bare_def response_x_500_def response_x_0_def event_7_def q_def dquote_def)

lemma one_request_pending:
  "pendingPromises one_request ''x'' = Some \<lparr>promise = 0, timer = 0\<rparr>"
  by (simp add: one_request_def page_ready_def FlutterBridgeSDK_def postMessage_def getBridge_def both_bridges_def
      postMessage_body_sent issue_state_def example_nanoid_def Let_def)

lemma one_request_settled: "settled one_request = []"
  by (simp add: one_request_def page_ready_def FlutterBridgeSDK_def postMessage_def getBridge_def both_bridges_def
      postMessage_body_sent issue_state_def example_nanoid_def Let_def)

lemma oops_unparseable: "example_parse ''{oops'' = None"
  by (simp add: example_parse_def response_x_200_def response_xx_bare_def response_x_500_def response_x_0_def event_7_def q_def dquote_def)

section \<open>Responses\<close>

lemma dispatch_matching:
  assumes "parse m = Some (Envelope p)" and "msg_id p = JStr i" and "pendingPromises s i = Some pp"
  shows "dispatch parse nanoid m s =
         dispatch_response p pp (console_log (''FlutterBridgeSDK: Received message from Flutter: '' @ m) s)"
  using assms
  by (simp add: dispatch_def dispatch_check_def dispatch_route_def console_log_def)

lemma settled_dispatch_response:
  "settled (dispatch_response p pp s) =
     settled s @ [(promise pp, if is_success p then Resolved (data p)
                               else Rejected (ErrorWithCode (failure_message p) (code p)))]"
  by (cases "msg_id p") (simp_all add: dispatch_response_def settle_def clearTimeout_def Let_def)

lemma settled_dispatch_matching:
  assumes "parse m = Some (Envelope p)" and "msg_id p = JStr i" and "pendingPromises s i = Some pp"
  shows "settled (dispatch parse nanoid m s) =
          settled s @ [(promise pp, if is_success p then Resolved (data p)
                                    else Rejected (ErrorWithCode (failure_message p) (code p)))]"
  using assms dispatch_matching [of parse m p i s pp nanoid]
  by (simp add: settled_dispatch_response console_log_def)

lemma is_success_iff:
  "is_success p \<longleftrightarrow>
     (\<exists>c. code p = Some c \<and> 200 \<le> c \<and> c < 300) \<or> (code p = None \<and> errorMessage p = None)"
  by (auto simp: is_success_def split: option.splits)

text \<open>
  C2. When dispatch receives an envelope whose id is the key of a pending request, the
  request's promise is resolved with the envelope's data exactly when the code is present
  and in [200,300) or code and errorMessage are both absent; in every other case it is
  rejected. An envelope with an id only resolves the promise with undefined.
\<close>

theorem response_success_iff:
  assumes "parse m = Some (Envelope p)" and "msg_id p = JStr i" and "pendingPromises s i = Some pp"
  shows "((\<exists>c. code p = Some c \<and> 200 \<le> c \<and> c < 300) \<or> (code p = None \<and> errorMessage p = None)
            \<longrightarrow> settled (dispatch parse nanoid m s) = settled s @ [(promise pp, Resolved (data p))])
       \<and> (\<not> ((\<exists>c. code p = Some c \<and> 200 \<le> c \<and> c < 300) \<or> (code p = None \<and> errorMessage p = None))
            \<longrightarrow> (\<exists>e. settled (dispatch parse nanoid m s) = settled s @ [(promise pp, Rejected e)]))
       \<and> (code p = None \<and> errorMessage p = None \<and> data p = JUndefined
            \<longrightarrow> settled (dispatch parse nanoid m s) = settled s @ [(promise pp, Resolved JUndefined)])"
  using assms settled_dispatch_matching [where parse = parse and m = m and p = p and i = i and s = s
      and pp = pp and nanoid = nanoid] is_success_iff [of p]
  by auto

theorem response_success_iff_witness:
  "example_parse response_x_200 =
     Some (Envelope \<lparr>action = JUndefined, msg_id = JStr ''x'', data = JNum 1, code = Some 200, errorMessage = None\<rparr>)
   \<and> pendingPromises one_request ''x'' = Some \<lparr>promise = 0, timer = 0\<rparr>
   \<and> settled (dispatch example_parse example_nanoid response_x_200 one_request) = [(0, Resolved (JNum 1))]"
proof -
  have h1: "example_parse response_x_200 =
     Some (Envelope \<lparr>action = JUndefined, msg_id = JStr ''x'', data = JNum 1, code = Some 200, errorMessage = None\<rparr>)"
    by (simp add: example_parse_def)
  have h2: "msg_id \<lparr>action = JUndefined, msg_id = JStr ''x'', data = JNum 1, code = Some 200, errorMessage = None\<rparr> = JStr ''x''"
    by simp
  show ?thesis
    using response_success_iff [where parse = example_parse and m = response_x_200 and i = "''x''"
        and s = one_request and nanoid = example_nanoid, OF h1 h2 one_request_pending]
      h1 one_request_pending
    by (simp add: one_request_settled)
qed

section \<open>Malformed input\<close>

text \<open>
  C8. When the text is not parseable as JSON, dispatch returns normally through its catch
  block: the state it leaves differs from the one it found in two console lines only, so
  the pending-promise map and the event-listener map (and the Sets it refers to) are as
  they were.
\<close>

theorem malformed_json_no_change:
  assumes "parse m = None"
  shows "dispatch parse nanoid m s =
           s\<lparr>console := console s @
               [(Info, ''FlutterBridgeSDK: Received message from Flutter: '' @ m),
                (Err, ''FlutterBridgeSDK: Failed to parse message from Flutter:'')]\<rparr>
         \<and> pendingPromises (dispatch parse nanoid m s) = pendingPromises s
         \<and> eventListeners (dispatch parse nanoid m s) = eventListeners s
         \<and> sets (dispatch parse nanoid m s) = sets s"
  using assms by (simp add: dispatch_def console_log_def console_error_def)

theorem malformed_json_no_change_witness:
  "example_parse ''{oops'' = None
   \<and> pendingPromises (dispatch example_parse example_nanoid ''{oops'' one_request) ''x''
       = Some \<lparr>promise = 0, timer = 0\<rparr>
   \<and> eventListeners (dispatch example_parse example_nanoid ''{oops'' one_request) = eventListeners one_request"
  using malformed_json_no_change [where parse = example_parse and m = "''{oops''" and s = one_request
      and nanoid = example_nanoid] oops_unparseable one_request_pending
  by simp

section \<open>How the correlation table changes\<close>

lemma evolves_refl: "evolves nanoid s s"
  by (simp add: evolves_def)

lemma evolves_issued: "evolves nanoid s s' \<Longrightarrow> issued s \<le> issued s'"
  by (simp add: evolves_def)

lemma evolves_nextTimer: "evolves nanoid s s' \<Longrightarrow> nextTimer s \<le> nextTimer s'"
  by (simp add: evolves_def)

lemma evolves_timers:
  "evolves nanoid s s' \<Longrightarrow> tm < nextTimer s \<Longrightarrow> timers s' tm = None \<or> timers s' tm = timers s tm"
  unfolding evolves_def by blast

lemma evolves_pending:
  "evolves nanoid s s' \<Longrightarrow> pendingPromises s' i = None \<or> pendingPromises s' i = pendingPromises s i \<or>
          (\<exists>n. issued s \<le> n \<and> i = nanoid n)"
  unfolding evolves_def by blast

lemma evolvesI:
  assumes "issued s \<le> issued s'" and "nextTimer s \<le> nextTimer s'"
    and "\<And>tm. tm < nextTimer s \<Longrightarrow> timers s' tm = None \<or> timers s' tm = timers s tm"
    and "\<And>i. pendingPromises s' i = None \<or> pendingPromises s' i = pendingPromises s i \<or>
          (\<exists>n. issued s \<le> n \<and> i = nanoid n)"
  shows "evolves nanoid s s'"
  unfolding evolves_def using assms by blast

lemma evolves_trans:
  assumes 1: "evolves nanoid s s'" and 2: "evolves nanoid s' s''"
  shows "evolves nanoid s s''"
proof (rule evolvesI)
  show "issued s \<le> issued s''"
    using evolves_issued [OF 1] evolves_issued [OF 2] by simp
  show "nextTimer s \<le> nextTimer s''"
    using evolves_nextTimer [OF 1] evolves_nextTimer [OF 2] by simp
next
  fix tm assume a: "tm < nextTimer s"
  with evolves_nextTimer [OF 1] have b: "tm < nextTimer s'" by simp
  from evolves_timers [OF 1 a] evolves_timers [OF 2 b]
  show "timers s'' tm = None \<or> timers s'' tm = timers s tm"
    by (elim disjE) simp_all
next
  fix i
  from evolves_pending [OF 2, of i]
  show "pendingPromises s'' i = None \<or> pendingPromises s'' i = pendingPromises s i \<or>
          (\<exists>n. issued s \<le> n \<and> i = nanoid n)"
  proof (elim disjE exE conjE)
    assume "pendingPromises s'' i = None"
    then show ?thesis by simp
  next
    assume "pendingPromises s'' i = pendingPromises s' i"
    with evolves_pending [OF 1, of i] show ?thesis by (elim disjE) simp_all
  next
    fix n assume "issued s' \<le> n" "i = nanoid n"
    with evolves_issued [OF 1] have "issued s \<le> n \<and> i = nanoid n" by simp
    then show ?thesis by blast
  qed
qed

lemma evolves_frame:
  assumes "pendingPromises s' = pendingPromises s" "timers s' = timers s" "nextTimer s' = nextTimer s"
    "issued s' = issued s"
  shows "evolves nanoid s s'"
  using assms by (simp add: evolves_def)

lemma evolves_issue_state: "evolves nanoid s (issue_state nanoid a t s)"
  by (auto simp: evolves_def issue_state_def)

lemma evolves_removal:
  assumes "pendingPromises s' = (pendingPromises s)(i := None) \<or> pendingPromises s' = pendingPromises s"
    "timers s' = (timers s)(tm := None)" "nextTimer s' = nextTimer s" "issued s' = issued s"
  shows "evolves nanoid s s'"
  using assms by (auto simp: evolves_def split: if_splits)

lemma evolves_postMessage_body: "evolves nanoid s (postMessage_body nanoid b a d t s)"
proof (cases "b = Sender True")
  case True
  have "evolves nanoid (issue_state nanoid a t s) (postMessage_body nanoid (Sender True) a d t s)"
    by (rule evolves_frame) (simp_all add: postMessage_body_sent)
  with True show ?thesis using evolves_issue_state evolves_trans by blast
next
  case False
  have "evolves nanoid (issue_state nanoid a t s) (postMessage_body nanoid b a d t s)"
    by (rule evolves_removal [where i = "nanoid (issued s)" and tm = "nextTimer s"])
      (simp_all add: postMessage_body_failed [OF False] issue_state_def)
  then show ?thesis using evolves_issue_state evolves_trans by blast
qed

lemma evolves_dispatch_event: "evolves nanoid s (dispatch_event p l b s)"
  by (rule evolves_frame) (simp_all add: dispatch_event_frame)

lemma evolves_checkBridge: "evolves nanoid s (checkBridge nanoid w s)"
proof (cases "is_ready (getBridge s (channelName s)) \<and> is_ready (getBridge s (innerChannel (options s)))")
  case True
  then have "checkBridge nanoid w s = resume nanoid w s" by (simp add: checkBridge_def)
  then show ?thesis
    by (cases w) (simp_all add: evolves_postMessage_body evolves_dispatch_event)
next
  case False
  then have eq: "checkBridge nanoid w s = snd (setTimeout (CheckBridge w) (Some 100) s)"
    by (auto simp: checkBridge_def Let_def)
  show ?thesis
    unfolding eq by (auto simp: evolves_def setTimeout_def)
qed

lemma evolves_postMessage: "evolves nanoid s (postMessage nanoid a d t s)"
  by (simp add: postMessage_def waitForBridgeReady_def Let_def evolves_checkBridge evolves_postMessage_body)

lemma evolves_dispatch_response: "evolves nanoid s (dispatch_response p pp s)"
  by (cases "msg_id p") (auto simp: evolves_def dispatch_response_def settle_def clearTimeout_def Let_def)

lemma evolves_console: "evolves nanoid s (s\<lparr>console := c\<rparr>)"
  by (simp add: evolves_def)

lemma evolves_dispatch_route: "evolves nanoid s (dispatch_route nanoid p s)"
  by (auto simp: dispatch_route_def Let_def waitForBridgeReady_def evolves_checkBridge
        evolves_dispatch_event evolves_dispatch_response console_warn_def evolves_console split: option.splits)

lemma evolves_dispatch: "evolves nanoid s (dispatch parse nanoid m s)"
proof (cases "parse m")
  case None
  then show ?thesis
    by (simp add: dispatch_def console_log_def console_error_def evolves_def)
next
  case (Some v)
  define s0 where "s0 = console_log (''FlutterBridgeSDK: Received message from Flutter: '' @ m) s"
  obtain s1 r where chk: "dispatch_check m v s0 = (s1, r)" by (cases "dispatch_check m v s0")
  obtain c where "s1 = s0\<lparr>console := c\<rparr>"
    using dispatch_check_console [of m v s0] chk by auto
  then have c1: "evolves nanoid s s1"
    by (simp add: s0_def console_log_def evolves_def)
  have "dispatch parse nanoid m s = (case r of None \<Rightarrow> s1 | Some p \<Rightarrow> dispatch_route nanoid p s1)"
    using Some chk by (simp add: dispatch_def s0_def)
  then show ?thesis
    using c1 evolves_dispatch_route [of nanoid s1] evolves_trans [of nanoid s s1]
    by (cases r) auto
qed

lemma evolves_timer_fires: "evolves nanoid s (timer_fires nanoid tm s)"
proof (cases "timers s tm")
  case None
  then show ?thesis by (simp add: timer_fires_def evolves_refl)
next
  case (Some cd)
  obtain cb d where cd: "cd = (cb, d)" by (cases cd)
  have 1: "evolves nanoid s (s\<lparr>timers := (timers s)(tm := None)\<rparr>)"
    by (auto simp: evolves_def)
  show ?thesis
  proof (cases cb)
    case (RequestTimeout n i a t)
    have "evolves nanoid (s\<lparr>timers := (timers s)(tm := None)\<rparr>)
       (request_timeout n i a t (s\<lparr>timers := (timers s)(tm := None)\<rparr>))"
      by (auto simp: evolves_def request_timeout_def settle_def)
    with 1 Some cd RequestTimeout show ?thesis
      using evolves_trans by (fastforce simp: timer_fires_def)
  next
    case (CheckBridge w)
    with 1 Some cd show ?thesis
      using evolves_trans evolves_checkBridge by (fastforce simp: timer_fires_def)
  qed
qed

lemma evolves_step: "evolves nanoid s (step parse nanoid e s)"
proof (cases e)
  case (ListenMessage a cb)
  have "evolves nanoid s (fst (listenMessage a cb s))"
    by (rule evolves_frame) (simp_all add: listenMessage_def Let_def console_warn_def console_log_def)
  with ListenMessage show ?thesis by simp
next
  case (Cancel a)
  have "evolves nanoid s (cancel a s)"
    by (rule evolves_frame) (simp_all add: cancel_def console_log_def split: option.splits)
  with Cancel show ?thesis by simp
next
  case (HandlerSettles k r)
  have "evolves nanoid s (handler_settled k r s)"
    by (rule evolves_frame)
     (auto simp: handler_settled_def ack_failure_def opt_postMessage_def bridge_postMessage_def Let_def
      console_error_def split: handler_result.splits bridge.splits sum.splits)
  with HandlerSettles show ?thesis by simp
next
  case (HostSets name b)
  then show ?thesis by (simp add: evolves_def)
qed (simp_all add: evolves_postMessage evolves_dispatch evolves_timer_fires)

lemma evolves_run: "evolves nanoid s (run parse nanoid es s)"
proof (induction es arbitrary: s)
  case Nil
  then show ?case by (simp add: run_def evolves_refl)
next
  case (Cons e es)
  have "evolves nanoid (step parse nanoid e s) (run parse nanoid es (step parse nanoid e s))"
    by (rule Cons.IH)
  then show ?case
    using evolves_step [of nanoid s parse e] evolves_trans by (fastforce simp: run_def)
qed

lemma reachable_run:
  assumes "reachable parse nanoid s"
  shows "reachable parse nanoid (run parse nanoid es s)"
  using assms
proof (induction es arbitrary: s)
  case Nil
  then show ?case by (simp add: run_def)
next
  case (Cons e es)
  from Cons.prems have "reachable parse nanoid (step parse nanoid e s)" by (rule reachable_step)
  then have "reachable parse nanoid (run parse nanoid es (step parse nanoid e s))" by (rule Cons.IH)
  then show ?case by (simp add: run_def)
qed

section \<open>Further facts about the concrete inputs and about single operations\<close>

lemma dispatch_answer:
  assumes "parse m = Some (Envelope p)" and "msg_id p = JStr i" and "pendingPromises s i = Some pp"
  shows "dispatch parse nanoid m s =
     s\<lparr>console := console s @ [(Info, ''FlutterBridgeSDK: Received message from Flutter: '' @ m)],
       timers := (timers s)(timer pp := None),
       settled := settled s @ [(promise pp, if is_success p then Resolved (data p)
                                else Rejected (ErrorWithCode (failure_message p) (code p)))],
       pendingPromises := (pendingPromises s)(i := None)\<rparr>"
  using assms dispatch_matching [where parse = parse and m = m and p = p and i = i and s = s
      and pp = pp and nanoid = nanoid]
  by (simp add: dispatch_response_def console_log_def clearTimeout_def settle_def Let_def)

lemma malformed_json_pending:
  "parse m = None \<Longrightarrow> pendingPromises (dispatch parse nanoid m s) = pendingPromises s"
  by (simp add: dispatch_def console_log_def console_error_def)

lemma inj_example_nanoid: "inj example_nanoid"
  by (simp add: inj_def example_nanoid_def)

lemma calls_singleton_mem:
  assumes "calls n s = [r]"
  shows "(n, r) \<in> set (settled s)"
proof -
  from assms have "r \<in> set (calls n s)" by simp
  then show ?thesis by (auto simp: calls_def)
qed

lemma one_request_reachable: "reachable example_parse example_nanoid one_request"
proof -
  have "reachable example_parse example_nanoid
          (step example_parse example_nanoid (PostMessage ''getUserInfo'' JNull None) page_ready)"
    unfolding page_ready_def by (rule reachable_step) (rule reachable_init)
  then show ?thesis by (simp add: one_request_def)
qed

lemma one_request_issued: "issued one_request = 1"
  by (simp add: one_request_def page_ready_def FlutterBridgeSDK_def postMessage_def getBridge_def both_bridges_def
      postMessage_body_sent issue_state_def example_nanoid_def Let_def)

lemma example_parse_x_200:
  "example_parse response_x_200 =
     Some (Envelope \<lparr>action = JUndefined, msg_id = JStr ''x'', data = JNum 1, code = Some 200, errorMessage = None\<rparr>)"
  by (simp add: example_parse_def)

lemma one_request_answered:
  "dispatch example_parse example_nanoid response_x_200 one_request =
     one_request
     \<lparr>console := console one_request @ [(Info, ''FlutterBridgeSDK: Received message from Flutter: '' @ response_x_200)],
       timers := (timers one_request)(0 := None),
       settled := settled one_request @ [(0, Resolved (JNum 1))],
       pendingPromises := (pendingPromises one_request)(''x'' := None)\<rparr>"
  using dispatch_answer [where parse = example_parse and m = response_x_200 and i = "''x''"
      and s = one_request and nanoid = example_nanoid, OF example_parse_x_200 _ one_request_pending]
  by (simp add: is_success_def)

lemma example_parse_x_0:
  "example_parse response_x_0 =
     Some (Envelope \<lparr>action = JUndefined, msg_id = JStr ''x'', data = JUndefined, code = Some 0, errorMessage = None\<rparr>)"
  using example_messages_distinct by (simp add: example_parse_def)

lemma example_parse_x_500:
  "example_parse response_x_500 =
     Some (Envelope \<lparr>action = JUndefined, msg_id = JStr ''x'', data = JUndefined, code = Some 500,
                     errorMessage = Some ''bad''\<rparr>)"
  using example_messages_distinct by (simp add: example_parse_def)

lemma page_ready_fields:
  "issued page_ready = 0" "nextTimer page_ready = 0" "channelName page_ready = ''client_to_native_channel''"
  "window page_ready = both_bridges" "timeout (options page_ready) = Some 15000"
  "innerChannel (options page_ready) = ''native_to_client_channel''"
  by (simp_all add: page_ready_def FlutterBridgeSDK_def)

lemma timer_fires_timeout:
  assumes "timers s tm = Some (RequestTimeout n i a t, d)" and "pendingPromises s i = Some pp"
  shows "timer_fires nanoid tm s =
        s\<lparr>timers := (timers s)(tm := None), pendingPromises := (pendingPromises s)(i := None),
          settled := settled s @ [(n, Rejected (Error (timeout_message a i t)))]\<rparr>"
  using assms by (simp add: timer_fires_def request_timeout_def settle_def)

lemma postMessage_sent:
  assumes "window s (channelName s) = Sender True"
  shows "postMessage nanoid a d targ s =
     (issue_state nanoid a (case targ of None \<Rightarrow> timeout (options s) | Some t' \<Rightarrow> Some t') s)
       \<lparr>outbox := outbox s @ [(channelName s,
        \<lparr>action = JStr a, msg_id = JStr (nanoid (issued s)), data = d, code = None, errorMessage = None\<rparr>)]\<rparr>"
  using assms by (simp add: postMessage_def getBridge_def postMessage_body_sent)

section \<open>Responses out of order\<close>

lemma two_requests_pending:
  assumes bridge: "window s (channelName s) = Sender True"
    and distinct: "nanoid (issued s) \<noteq> nanoid (Suc (issued s))"
  shows "pendingPromises (postMessage nanoid a2 d2 t2 (postMessage nanoid a1 d1 t1 s)) =
           (pendingPromises s)
             (nanoid (issued s) \<mapsto> \<lparr>promise = issued s, timer = nextTimer s\<rparr>,
              nanoid (Suc (issued s)) \<mapsto> \<lparr>promise = Suc (issued s), timer = Suc (nextTimer s)\<rparr>)"
    and "settled (postMessage nanoid a2 d2 t2 (postMessage nanoid a1 d1 t1 s)) = settled s"
proof -
  define s1 where "s1 = postMessage nanoid a1 d1 t1 s"
  have s1: "s1 = (issue_state nanoid a1 (case t1 of None \<Rightarrow> timeout (options s) | Some t' \<Rightarrow> Some t') s)
       \<lparr>outbox := outbox s @ [(channelName s,
        \<lparr>action = JStr a1, msg_id = JStr (nanoid (issued s)), data = d1, code = None, errorMessage = None\<rparr>)]\<rparr>"
    unfolding s1_def by (rule postMessage_sent [OF bridge])
  have b1: "window s1 (channelName s1) = Sender True"
    using bridge by (simp add: s1 issue_state_def)
  have f1: "issued s1 = Suc (issued s)" "nextTimer s1 = Suc (nextTimer s)" "settled s1 = settled s"
    "pendingPromises s1 = (pendingPromises s)(nanoid (issued s) \<mapsto> \<lparr>promise = issued s, timer = nextTimer s\<rparr>)"
    by (simp_all add: s1 issue_state_def)
  show "pendingPromises (postMessage nanoid a2 d2 t2 (postMessage nanoid a1 d1 t1 s)) =
           (pendingPromises s)
             (nanoid (issued s) \<mapsto> \<lparr>promise = issued s, timer = nextTimer s\<rparr>,
              nanoid (Suc (issued s)) \<mapsto> \<lparr>promise = Suc (issued s), timer = Suc (nextTimer s)\<rparr>)"
    unfolding s1_def [symmetric] by (simp add: postMessage_sent [OF b1] issue_state_def f1)
  show "settled (postMessage nanoid a2 d2 t2 (postMessage nanoid a1 d1 t1 s)) = settled s"
    unfolding s1_def [symmetric] by (simp add: postMessage_sent [OF b1] issue_state_def f1)
qed

lemma example_parse_xx_bare:
  "example_parse response_xx_bare =
     Some (Envelope \<lparr>action = JUndefined, msg_id = JStr ''xx'', data = JNum 2, code = None, errorMessage = None\<rparr>)"
  using example_messages_distinct by (simp add: example_parse_def)

text \<open>
  C4. Two requests are sent over a working bridge, with distinct identifiers, and both are
  in flight. When their success responses are dispatched in the reverse of the order of
  issue, each promise is resolved with the data of the response that carries its own
  identifier; dispatching them in the order of issue resolves each promise with the same
  data. The promise a response completes depends on the identifier only.
\<close>

theorem responses_matched_by_identifier:
  assumes bridge: "window s (channelName s) = Sender True"
    and distinct: "nanoid (issued s) \<noteq> nanoid (Suc (issued s))"
    and m1: "parse m1 = Some (Envelope p1)" and id1: "msg_id p1 = JStr (nanoid (issued s))"
    and ok1: "(\<exists>c. code p1 = Some c \<and> 200 \<le> c \<and> c < 300) \<or> (code p1 = None \<and> errorMessage p1 = None)"
    and m2: "parse m2 = Some (Envelope p2)" and id2: "msg_id p2 = JStr (nanoid (Suc (issued s)))"
    and ok2: "(\<exists>c. code p2 = Some c \<and> 200 \<le> c \<and> c < 300) \<or> (code p2 = None \<and> errorMessage p2 = None)"
  shows "settled (run parse nanoid
            [PostMessage a1 d1 t1, PostMessage a2 d2 t2, Dispatch m2, Dispatch m1] s) =
           settled s @ [(Suc (issued s), Resolved (data p2)), (issued s, Resolved (data p1))]
       \<and> settled (run parse nanoid
            [PostMessage a1 d1 t1, PostMessage a2 d2 t2, Dispatch m1, Dispatch m2] s) =
           settled s @ [(issued s, Resolved (data p1)), (Suc (issued s), Resolved (data p2))]"
proof -
  define s2 where "s2 = postMessage nanoid a2 d2 t2 (postMessage nanoid a1 d1 t1 s)"
  note pend = two_requests_pending [OF bridge distinct, of a2 d2 t2 a1 d1 t1, folded s2_def]
  from ok1 have s1: "is_success p1" by (simp add: is_success_iff)
  from ok2 have s2ok: "is_success p2" by (simp add: is_success_iff)
  have p1: "pendingPromises s2 (nanoid (issued s)) = Some \<lparr>promise = issued s, timer = nextTimer s\<rparr>"
    and p2: "pendingPromises s2 (nanoid (Suc (issued s))) = Some \<lparr>promise = Suc (issued s), timer = Suc (nextTimer s)\<rparr>"
    using distinct by (simp_all add: pend)
  define s3 where "s3 = dispatch parse nanoid m2 s2"
  have s3: "settled s3 = settled s @ [(Suc (issued s), Resolved (data p2))]"
    "pendingPromises s3 (nanoid (issued s)) = Some \<lparr>promise = issued s, timer = nextTimer s\<rparr>"
    unfolding s3_def using distinct s2ok p1
    by (simp_all add: dispatch_answer [where parse = parse and m = m2 and nanoid = nanoid, OF m2 id2 p2] pend)
  have a: "settled (dispatch parse nanoid m1 s3) =
      settled s @ [(Suc (issued s), Resolved (data p2)), (issued s, Resolved (data p1))]"
    using s1 by (simp add: dispatch_answer [where parse = parse and m = m1 and nanoid = nanoid, OF m1 id1 s3(2)] s3(1))
  define s3' where "s3' = dispatch parse nanoid m1 s2"
  have s3': "settled s3' = settled s @ [(issued s, Resolved (data p1))]"
    "pendingPromises s3' (nanoid (Suc (issued s))) = Some \<lparr>promise = Suc (issued s), timer = Suc (nextTimer s)\<rparr>"
    unfolding s3'_def using distinct s1 p2
    by (simp_all add: dispatch_answer [where parse = parse and m = m1 and nanoid = nanoid, OF m1 id1 p1] pend)
  have b: "settled (dispatch parse nanoid m2 s3') =
      settled s @ [(issued s, Resolved (data p1)), (Suc (issued s), Resolved (data p2))]"
    using s2ok by (simp add: dispatch_answer [where parse = parse and m = m2 and nanoid = nanoid, OF m2 id2 s3'(2)] s3'(1))
  from a b show ?thesis
    by (simp add: run_def s3_def s3'_def s2_def)
qed


theorem responses_matched_by_identifier_witness:
  "window page_ready (channelName page_ready) = Sender True
   \<and> example_nanoid (issued page_ready) \<noteq> example_nanoid (Suc (issued page_ready))
   \<and> settled (run example_parse example_nanoid
         [PostMessage ''getUserInfo'' JNull None, PostMessage ''getTheme'' JNull None,
          Dispatch response_xx_bare, Dispatch response_x_200] page_ready) =
       [(1, Resolved (JNum 2)), (0, Resolved (JNum 1))]"
proof -
  have b: "window page_ready (channelName page_ready) = Sender True"
    by (simp add: page_ready_fields both_bridges_def)
  have d: "example_nanoid (issued page_ready) \<noteq> example_nanoid (Suc (issued page_ready))"
    by (simp add: page_ready_fields example_nanoid_def)
  have i1: "msg_id \<lparr>action = JUndefined, msg_id = JStr ''x'', data = JNum 1, code = Some 200, errorMessage = None\<rparr>
            = JStr (example_nanoid (issued page_ready))"
    by (simp add: page_ready_fields example_nanoid_def)
  have i2: "msg_id \<lparr>action = JUndefined, msg_id = JStr ''xx'', data = JNum 2, code = None, errorMessage = None\<rparr>
            = JStr (example_nanoid (Suc (issued page_ready)))"
    by (simp add: page_ready_fields example_nanoid_def)
  show ?thesis
    using responses_matched_by_identifier [where parse = example_parse and nanoid = example_nanoid
        and s = page_ready and ?m1.0 = response_x_200 and ?m2.0 = response_xx_bare
        and ?a1.0 = "''getUserInfo''" and ?d1.0 = JNull and ?t1.0 = None
        and ?a2.0 = "''getTheme''" and ?d2.0 = JNull and ?t2.0 = None,
        OF b d example_parse_x_200 i1 _ example_parse_xx_bare i2] b d
    by (simp add: page_ready_def FlutterBridgeSDK_def)
qed

section \<open>Events and their acknowledgement\<close>

lemma pending_get_console [simp]: "pending_get (s\<lparr>console := c\<rparr>) v = pending_get s v"
  by (cases v) simp_all

lemma listeners_get_console [simp]: "listeners_get (s\<lparr>console := c\<rparr>) v = listeners_get s v"
  by (cases v) simp_all

lemma call_handler_single:
  "sets s l = [cb] \<Longrightarrow>
   dispatch_event p l b s =
     s\<lparr>invoked := invoked s @ [(cb, p)],
       running := running s @ [\<lparr>callback = cb, event = p, ackBridge = b\<rparr>]\<rparr>"
  by (simp add: dispatch_event_def call_handler_def)

lemma dispatch_to_handler:
  assumes m: "parse m = Some (Envelope p)" and noresp: "pending_get s (msg_id p) = None"
    and a: "action p = JStr a" "a \<noteq> []" and l: "eventListeners s a = Some l" "sets s l = [cb]"
    and b: "window s (innerChannel (options s)) = b" "b \<noteq> Absent"
  shows "dispatch parse nanoid m s =
     s\<lparr>console := console s @ [(Info, ''FlutterBridgeSDK: Received message from Flutter: '' @ m)] @
          (if is_string (msg_id p) then []
           else [(Warn, ''FlutterBridgeSDK: Received event message might be malformed (missing id?), proceeding with action:'')]),
       invoked := invoked s @ [(cb, p)],
       running := running s @ [\<lparr>callback = cb, event = p, ackBridge = b\<rparr>]\<rparr>"
proof -
  define s0 where "s0 = console_log (''FlutterBridgeSDK: Received message from Flutter: '' @ m) s"
  define s1 where "s1 = (if is_string (msg_id p) then s0 else console_warn
      ''FlutterBridgeSDK: Received event message might be malformed (missing id?), proceeding with action:'' s0)"
  have chk: "dispatch_check m (Envelope p) s0 = (s1, Some p)"
    using noresp a l by (simp add: dispatch_check_def s1_def s0_def console_log_def Let_def)
  have f: "pending_get s1 (msg_id p) = None" "listeners_get s1 (action p) = Some l" "sets s1 l = [cb]"
    "getBridge s1 (innerChannel (options s1)) = b"
    using noresp a l b
    by (simp_all add: s1_def s0_def console_log_def console_warn_def getBridge_def)
  have "dispatch parse nanoid m s = dispatch_route nanoid p s1"
    using m chk by (simp add: dispatch_def s0_def)
  also have "\<dots> = dispatch_event p l b s1"
    using f a b(2) by (simp add: dispatch_route_def)
  also have "\<dots> = s1\<lparr>invoked := invoked s1 @ [(cb, p)],
       running := running s1 @ [\<lparr>callback = cb, event = p, ackBridge = b\<rparr>]\<rparr>"
    using f(3) by (rule call_handler_single)
  finally show ?thesis
    by (simp add: s1_def s0_def console_log_def console_warn_def)
qed

lemma handler_settled_working:
  assumes "k < length (running s)" and "ackBridge (running s ! k) = Sender True"
  shows "handler_settled k (Fulfils r) s =
           s\<lparr>running := take k (running s) @ drop (Suc k) (running s),
             outbox := outbox s @ [(innerChannel (options s),
               \<lparr>action = action (event (running s ! k)), msg_id = msg_id (event (running s ! k)),
                data = r, code = Some 200, errorMessage = None\<rparr>)]\<rparr>"
    and "handler_settled k (Rejects e) s =
           s\<lparr>running := take k (running s) @ drop (Suc k) (running s),
             outbox := outbox s @ [(innerChannel (options s),
               \<lparr>action = action (event (running s ! k)), msg_id = msg_id (event (running s ! k)),
                data = JUndefined, code = Some 500, errorMessage = None\<rparr>)],
             console := console s @ [(Err, ''FlutterBridgeSDK: Error in event listener for action '')]\<rparr>"
  using assms
  by (simp_all add: handler_settled_def ack_failure_def opt_postMessage_def bridge_postMessage_def Let_def
      console_error_def)

lemma example_parse_event_7: "example_parse event_7 = Some (Envelope event_7_payload)"
  using example_messages_distinct by (simp add: example_parse_def event_7_payload_def)

lemmas example_eval =
  run_def FlutterBridgeSDK_def listenMessage_def dispatch_def dispatch_check_def dispatch_route_def
  dispatch_event_def call_handler_def handler_settled_def ack_failure_def opt_postMessage_def
  bridge_postMessage_def console_log_def console_warn_def console_error_def getBridge_def
  waitForBridgeReady_def checkBridge_def setTimeout_def timer_fires_def example_parse_event_7
  event_7_payload_def Let_def

lemma listening_fields:
  "eventListeners (fst (listenMessage ''evt'' 2 page_ready)) ''evt'' = Some 0"
  "sets (fst (listenMessage ''evt'' 2 page_ready)) 0 = [2]"
  "pendingPromises (fst (listenMessage ''evt'' 2 page_ready)) = Map.empty"
  "window (fst (listenMessage ''evt'' 2 page_ready)) = both_bridges"
  "innerChannel (options (fst (listenMessage ''evt'' 2 page_ready))) = ''native_to_client_channel''"
  "invoked (fst (listenMessage ''evt'' 2 page_ready)) = []"
  "running (fst (listenMessage ''evt'' 2 page_ready)) = []"
  "outbox (fst (listenMessage ''evt'' 2 page_ready)) = []"
  by (simp_all add: listenMessage_def page_ready_def FlutterBridgeSDK_def Let_def console_log_def)

text \<open>
  C6, as stated, fails on the code: the acknowledgement is sent with \<open>innerBridge?.postMessage\<close>
  inside the \<open>try\<close> block, and nothing repeats a send that fails. On a page whose inner
  bridge throws, and on a page whose inner bridge has no \<open>postMessage\<close> function, the
  handler is called and its promise fulfils, and no acknowledgement is delivered.
\<close>

theorem ack_lost_when_send_throws:
  "window page_inner_throws (innerChannel (options page_inner_throws)) = Sender False
   \<and> invoked (run example_parse example_nanoid
        [ListenMessage ''evt'' 1, Dispatch event_7, HandlerSettles 0 (Fulfils (JNum 5))] page_inner_throws)
       = [(1, event_7_payload)]
   \<and> running (run example_parse example_nanoid
        [ListenMessage ''evt'' 1, Dispatch event_7, HandlerSettles 0 (Fulfils (JNum 5))] page_inner_throws)
       = []
   \<and> outbox (run example_parse example_nanoid
        [ListenMessage ''evt'' 1, Dispatch event_7, HandlerSettles 0 (Fulfils (JNum 5))] page_inner_throws)
       = []
   \<and> window page_inner_unusable (innerChannel (options page_inner_unusable)) = NoPostMessage
   \<and> invoked (run example_parse example_nanoid
        [ListenMessage ''evt'' 1, Dispatch event_7, HandlerSettles 0 (Fulfils (JNum 5))] page_inner_unusable)
       = [(1, event_7_payload)]
   \<and> running (run example_parse example_nanoid
        [ListenMessage ''evt'' 1, Dispatch event_7, HandlerSettles 0 (Fulfils (JNum 5))] page_inner_unusable)
       = []
   \<and> outbox (run example_parse example_nanoid
        [ListenMessage ''evt'' 1, Dispatch event_7, HandlerSettles 0 (Fulfils (JNum 5))] page_inner_unusable)
       = []"
  by (simp add: example_eval page_inner_throws_def inner_throws_def page_inner_unusable_def inner_unusable_def)

text \<open>
  C6, amended. An event envelope is dispatched (its id is the key of no pending request),
  its action has one registered handler, and the acknowledgement channel read at dispatch
  time is there and accepts messages. Then the handler is called with the envelope; when
  its promise fulfils with \<open>r\<close>, the envelope \<open>{action, data: r, id, code: 200}\<close> is
  delivered on the acknowledgement channel; when it rejects, \<open>{action, id, code: 500}\<close> is
  delivered instead, the other running handlers stay as they are, and neither the
  registry nor the correlation table changes.
\<close>

theorem acknowledgement_of_handler_result:
  assumes "parse m = Some (Envelope p)" and "pending_get s (msg_id p) = None"
    and "action p = JStr a" and "a \<noteq> []" and "eventListeners s a = Some l" and "sets s l = [cb]"
    and "window s (innerChannel (options s)) = Sender True"
  shows "invoked (dispatch parse nanoid m s) = invoked s @ [(cb, p)]
       \<and> running (dispatch parse nanoid m s) =
           running s @ [\<lparr>callback = cb, event = p, ackBridge = Sender True\<rparr>]
       \<and> (\<forall>s' k r. k < length (running s') \<and>
              running s' ! k = \<lparr>callback = cb, event = p, ackBridge = Sender True\<rparr> \<longrightarrow>
              outbox (handler_settled k (Fulfils r) s') =
                outbox s' @ [(innerChannel (options s'),
                  \<lparr>action = JStr a, msg_id = msg_id p, data = r, code = Some 200, errorMessage = None\<rparr>)])
       \<and> (\<forall>s' k e. k < length (running s') \<and>
              running s' ! k = \<lparr>callback = cb, event = p, ackBridge = Sender True\<rparr> \<longrightarrow>
              outbox (handler_settled k (Rejects e) s') =
                outbox s' @ [(innerChannel (options s'),
                  \<lparr>action = JStr a, msg_id = msg_id p, data = JUndefined, code = Some 500, errorMessage = None\<rparr>)] \<and>
              running (handler_settled k (Rejects e) s') = take k (running s') @ drop (Suc k) (running s') \<and>
              invoked (handler_settled k (Rejects e) s') = invoked s' \<and>
              eventListeners (handler_settled k (Rejects e) s') = eventListeners s' \<and>
              sets (handler_settled k (Rejects e) s') = sets s' \<and>
              pendingPromises (handler_settled k (Rejects e) s') = pendingPromises s')"
proof -
  have d: "dispatch parse nanoid m s =
     s\<lparr>console := console s @ [(Info, ''FlutterBridgeSDK: Received message from Flutter: '' @ m)] @
          (if is_string (msg_id p) then []
           else [(Warn, ''FlutterBridgeSDK: Received event message might be malformed (missing id?), proceeding with action:'')]),
       invoked := invoked s @ [(cb, p)],
       running := running s @ [\<lparr>callback = cb, event = p, ackBridge = Sender True\<rparr>]\<rparr>"
    using assms by (intro dispatch_to_handler [where a = a and l = l]) simp_all
  have 1: "invoked (dispatch parse nanoid m s) = invoked s @ [(cb, p)]"
    and 2: "running (dispatch parse nanoid m s) =
           running s @ [\<lparr>callback = cb, event = p, ackBridge = Sender True\<rparr>]"
    by (simp_all add: d)
  have 3: "outbox (handler_settled k (Fulfils r) s') =
                outbox s' @ [(innerChannel (options s'),
                  \<lparr>action = JStr a, msg_id = msg_id p, data = r, code = Some 200, errorMessage = None\<rparr>)]"
    if "k < length (running s')" "running s' ! k = \<lparr>callback = cb, event = p, ackBridge = Sender True\<rparr>"
    for s' k r
    using that assms(3) by (simp add: handler_settled_working(1))
  have 4: "outbox (handler_settled k (Rejects e) s') =
                outbox s' @ [(innerChannel (options s'),
                  \<lparr>action = JStr a, msg_id = msg_id p, data = JUndefined, code = Some 500, errorMessage = None\<rparr>)] \<and>
              running (handler_settled k (Rejects e) s') = take k (running s') @ drop (Suc k) (running s') \<and>
              invoked (handler_settled k (Rejects e) s') = invoked s' \<and>
              eventListeners (handler_settled k (Rejects e) s') = eventListeners s' \<and>
              sets (handler_settled k (Rejects e) s') = sets s' \<and>
              pendingPromises (handler_settled k (Rejects e) s') = pendingPromises s'"
    if "k < length (running s')" "running s' ! k = \<lparr>callback = cb, event = p, ackBridge = Sender True\<rparr>"
    for s' k e
    using that assms(3) by (simp add: handler_settled_working(2))
  from 1 2 3 4 show ?thesis by blast
qed



theorem acknowledgement_of_handler_result_witness:
  "example_parse event_7 = Some (Envelope event_7_payload)
   \<and> pending_get (fst (listenMessage ''evt'' 2 page_ready)) (msg_id event_7_payload) = None
   \<and> action event_7_payload = JStr ''evt''
   \<and> eventListeners (fst (listenMessage ''evt'' 2 page_ready)) ''evt'' = Some 0
   \<and> sets (fst (listenMessage ''evt'' 2 page_ready)) 0 = [2]
   \<and> window (fst (listenMessage ''evt'' 2 page_ready))
        (innerChannel (options (fst (listenMessage ''evt'' 2 page_ready)))) = Sender True
   \<and> outbox (handler_settled 0 (Rejects JNull)
        (dispatch example_parse example_nanoid event_7 (fst (listenMessage ''evt'' 2 page_ready)))) =
       [(''native_to_client_channel'',
         \<lparr>action = JStr ''evt'', msg_id = JStr ''7'', data = JUndefined, code = Some 500, errorMessage = None\<rparr>)]
   \<and> outbox (handler_settled 0 (Fulfils (JNum 5))
        (dispatch example_parse example_nanoid event_7 (fst (listenMessage ''evt'' 2 page_ready)))) =
       [(''native_to_client_channel'',
         \<lparr>action = JStr ''evt'', msg_id = JStr ''7'', data = JNum 5, code = Some 200, errorMessage = None\<rparr>)]"
proof -
  let ?s = "fst (listenMessage ''evt'' 2 page_ready)"
  let ?d = "dispatch example_parse example_nanoid event_7 ?s"
  have h2: "pending_get ?s (msg_id event_7_payload) = None"
    by (simp add: event_7_payload_def listening_fields)
  have h3: "action event_7_payload = JStr ''evt''" by (simp add: event_7_payload_def)
  have h4: "''evt'' \<noteq> []" by simp
  have h7: "window ?s (innerChannel (options ?s)) = Sender True"
    by (simp add: listening_fields both_bridges_def)
  note t = acknowledgement_of_handler_result [where parse = example_parse and m = event_7
      and nanoid = example_nanoid and s = ?s and a = "''evt''" and l = 0 and cb = 2,
      OF example_parse_event_7 h2 h3 h4 listening_fields(1) listening_fields(2) h7]
  from t have r: "running ?d = [\<lparr>callback = 2, event = event_7_payload, ackBridge = Sender True\<rparr>]"
    by (simp add: listening_fields)
  have k: "0 < length (running ?d) \<and> running ?d ! 0 = \<lparr>callback = 2, event = event_7_payload, ackBridge = Sender True\<rparr>"
    by (simp add: r)
  have o: "outbox ?d = []" "innerChannel (options ?d) = ''native_to_client_channel''"
    using dispatch_to_handler [where parse = example_parse and m = event_7
      and nanoid = example_nanoid and s = ?s and a = "''evt''" and l = 0 and cb = 2 and b = "Sender True",
      OF example_parse_event_7 h2 h3 h4 listening_fields(1) listening_fields(2) h7]
    by (simp_all add: listening_fields)
  from t k have "outbox (handler_settled 0 (Rejects JNull) ?d) =
       outbox ?d @ [(innerChannel (options ?d),
         \<lparr>action = JStr ''evt'', msg_id = msg_id event_7_payload, data = JUndefined, code = Some 500, errorMessage = None\<rparr>)]"
    by blast
  moreover from t k have "outbox (handler_settled 0 (Fulfils (JNum 5)) ?d) =
       outbox ?d @ [(innerChannel (options ?d),
         \<lparr>action = JStr ''evt'', msg_id = msg_id event_7_payload, data = JNum 5, code = Some 200, errorMessage = None\<rparr>)]"
    by blast
  ultimately show ?thesis
    using example_parse_event_7 h2 h3 h7 listening_fields(1,2) o
    by (simp add: event_7_payload_def)
qed

text \<open>
  C7 does not hold on the code. dispatch reads the inner bridge into a constant, waits for
  the bridges when the constant is undefined, and after the wait still sends through the
  constant: \<open>innerBridge?.postMessage\<close> is then skipped. On a page without the inner
  bridge the dispatch waits; the host injects the bridge; the poll resumes the dispatch
  and the handler is called; its promise fulfils; nothing is sent, although the channel is
  ready. The other variant of dispatch does not wait at all: it calls the handler at once
  and sends nothing either.
\<close>

theorem ack_lost_after_waiting:
  "window page_outbound_only (innerChannel (options page_outbound_only)) = Absent
   \<and> running (run example_parse example_nanoid
        [ListenMessage ''evt'' 1, Dispatch event_7] page_outbound_only) = []
   \<and> window (run example_parse example_nanoid
        [ListenMessage ''evt'' 1, Dispatch event_7,
         HostSets ''native_to_client_channel'' (Sender True), TimerFires 0] page_outbound_only)
        ''native_to_client_channel'' = Sender True
   \<and> invoked (run example_parse example_nanoid
        [ListenMessage ''evt'' 1, Dispatch event_7,
         HostSets ''native_to_client_channel'' (Sender True), TimerFires 0] page_outbound_only)
       = [(1, event_7_payload)]
   \<and> running (run example_parse example_nanoid
        [ListenMessage ''evt'' 1, Dispatch event_7,
         HostSets ''native_to_client_channel'' (Sender True), TimerFires 0,
         HandlerSettles 0 (Fulfils (JNum 5))] page_outbound_only)
       = []
   \<and> outbox (run example_parse example_nanoid
        [ListenMessage ''evt'' 1, Dispatch event_7,
         HostSets ''native_to_client_channel'' (Sender True), TimerFires 0,
         HandlerSettles 0 (Fulfils (JNum 5))] page_outbound_only)
       = []
   \<and> running (dispatch_part_000 example_parse event_7 (fst (listenMessage ''evt'' 1 page_outbound_only)))
       = [\<lparr>callback = 1, event = event_7_payload, ackBridge = Absent\<rparr>]
   \<and> outbox (run example_parse example_nanoid
        [HostSets ''native_to_client_channel'' (Sender True), HandlerSettles 0 (Fulfils (JNum 5))]
        (dispatch_part_000 example_parse event_7 (fst (listenMessage ''evt'' 1 page_outbound_only))))
       = []"
  by (simp add: example_eval dispatch_part_000_def dispatch_route_part_000_def page_outbound_only_def
      outbound_only_def)

section \<open>The event registry stays consistent\<close>

lemma quiet_refl: "quiet s s"
  by (simp add: quiet_def)

lemma quiet_trans:
  assumes "quiet s s'" and "quiet s' s''"
  shows "quiet s s''"
proof -
  have "timers s tm = Some (CheckBridge w, d)" if "timers s'' tm = Some (CheckBridge w, d)" for tm w d
  proof -
    from that assms(2) have "timers s' tm = Some (CheckBridge w, d)" unfolding quiet_def by blast
    with assms(1) show ?thesis unfolding quiet_def by blast
  qed
  moreover from assms have "eventListeners s'' = eventListeners s" "sets s'' = sets s"
    "nextSet s'' = nextSet s" "invoked s'' = invoked s"
    by (simp_all add: quiet_def)
  ultimately show ?thesis unfolding quiet_def by blast
qed

lemma quiet_handlers_of: "quiet s s' \<Longrightarrow> handlers_of s' = handlers_of s"
  by (rule ext) (simp add: quiet_def handlers_of_def split: option.splits)

lemma quiet_waiter_ok: "quiet s s' \<Longrightarrow> waiter_ok s' w = waiter_ok s w"
  by (cases w) (simp_all add: quiet_def)

lemma quiet_registry_ok:
  assumes "registry_ok s" and "quiet s s'"
  shows "registry_ok s'"
proof -
  from assms(2) have e: "eventListeners s' = eventListeners s" "sets s' = sets s" "nextSet s' = nextSet s"
    by (simp_all add: quiet_def)
  have w: "waiter_ok s' w" if "timers s' tm = Some (CheckBridge w, d)" for tm w d
  proof -
    from that assms(2) have "timers s tm = Some (CheckBridge w, d)" unfolding quiet_def by blast
    with assms(1) have "waiter_ok s w" unfolding registry_ok_def by blast
    then show ?thesis by (simp add: quiet_waiter_ok [OF assms(2)])
  qed
  from assms(1) show ?thesis
    unfolding registry_ok_def e using w by blast
qed

lemma quiet_invokes: "quiet s s' \<Longrightarrow> invokes_registered s s'"
  by (simp add: quiet_def invokes_registered_def)

lemma invokes_after_quiet:
  assumes "quiet s s'" and "invokes_registered s' s''"
  shows "invokes_registered s s''"
  using assms by (simp add: invokes_registered_def quiet_handlers_of) (simp add: quiet_def)

lemma invokes_then_quiet:
  assumes "invokes_registered s s'" and "quiet s' s''"
  shows "invokes_registered s s''"
  using assms by (simp add: invokes_registered_def quiet_def)

lemma quiet_console: "quiet s (s\<lparr>console := c\<rparr>)"
  by (simp add: quiet_def)

lemma quiet_postMessage_body: "quiet s (postMessage_body nanoid b a d t s)"
proof (cases "b = Sender True")
  case True
  then show ?thesis by (simp add: postMessage_body_sent quiet_def issue_state_def)
next
  case False
  then show ?thesis by (simp add: postMessage_body_failed quiet_def issue_state_def)
qed

lemma quiet_dispatch_response: "quiet s (dispatch_response p pp s)"
  by (cases "msg_id p") (simp_all add: dispatch_response_def quiet_def settle_def clearTimeout_def Let_def)

lemma quiet_handler_settled: "quiet s (handler_settled k r s)"
  by (auto simp: quiet_def handler_settled_def ack_failure_def opt_postMessage_def bridge_postMessage_def Let_def
      console_error_def split: handler_result.splits bridge.splits sum.splits)

lemma quiet_request_timeout: "quiet s (request_timeout n i a t s)"
  by (simp add: quiet_def request_timeout_def settle_def)

lemma quiet_timer_removed: "quiet s (s\<lparr>timers := (timers s)(tm := None)\<rparr>)"
  by (simp add: quiet_def)


lemma registry_okD:
  assumes "registry_ok s"
  shows "\<And>a r. eventListeners s a = Some r \<Longrightarrow> r < nextSet s"
    and "\<And>a r. eventListeners s a = Some r \<Longrightarrow> length (sets s r) = 1"
    and "\<And>a b r. eventListeners s a = Some r \<Longrightarrow> eventListeners s b = Some r \<Longrightarrow> a = b"
    and "\<And>r. (\<And>a. eventListeners s a \<noteq> Some r) \<Longrightarrow> sets s r = []"
    and "\<And>tm w d. timers s tm = Some (CheckBridge w, d) \<Longrightarrow> waiter_ok s w"
  using assms unfolding registry_ok_def by blast+

lemma registry_okI:
  assumes "\<And>a r. eventListeners s a = Some r \<Longrightarrow> r < nextSet s \<and> length (sets s r) = 1"
    and "\<And>a b r. eventListeners s a = Some r \<Longrightarrow> eventListeners s b = Some r \<Longrightarrow> a = b"
    and "\<And>r. (\<forall>a. eventListeners s a \<noteq> Some r) \<Longrightarrow> sets s r = []"
    and "\<And>tm w d. timers s tm = Some (CheckBridge w, d) \<Longrightarrow> waiter_ok s w"
  shows "registry_ok s"
  unfolding registry_ok_def using assms by blast

lemma registry_ok_init: "registry_ok (FlutterBridgeSDK name t i w)"
  by (simp add: registry_ok_def FlutterBridgeSDK_def)

lemma invoked_foldl_call_handler:
  "invoked (foldl (call_handler p b) s cbs) = invoked s @ map (\<lambda>cb. (cb, p)) cbs"
  by (induction cbs arbitrary: s) (simp_all add: call_handler_def)

lemma foldl_call_handler_frame:
  "eventListeners (foldl (call_handler p b) s cbs) = eventListeners s \<and>
   sets (foldl (call_handler p b) s cbs) = sets s \<and>
   nextSet (foldl (call_handler p b) s cbs) = nextSet s \<and>
   timers (foldl (call_handler p b) s cbs) = timers s"
  by (induction cbs arbitrary: s) (simp_all add: call_handler_def)

lemma registry_ok_frame:
  assumes "eventListeners s' = eventListeners s" "sets s' = sets s" "nextSet s' = nextSet s"
    "timers s' = timers s"
  shows "registry_ok s' = registry_ok s"
proof -
  have "waiter_ok s' w = waiter_ok s w" for w
    by (cases w) (simp_all add: assms)
  then show ?thesis by (simp add: registry_ok_def assms)
qed

lemma registry_ok_timers:
  assumes ok: "registry_ok s"
    and e: "eventListeners s' = eventListeners s" "sets s' = sets s" "nextSet s' = nextSet s"
    and t: "\<And>tm w d. timers s' tm = Some (CheckBridge w, d) \<Longrightarrow> waiter_ok s w"
  shows "registry_ok s'"
proof -
  have wk: "waiter_ok s' w = waiter_ok s w" for w
    by (cases w) (simp_all add: e)
  from ok have "(\<forall>a r. eventListeners s a = Some r \<longrightarrow> r < nextSet s \<and> length (sets s r) = 1) \<and>
     (\<forall>a b r. eventListeners s a = Some r \<longrightarrow> eventListeners s b = Some r \<longrightarrow> a = b) \<and>
     (\<forall>r. (\<forall>a. eventListeners s a \<noteq> Some r) \<longrightarrow> sets s r = [])"
    unfolding registry_ok_def by blast
  moreover have "\<forall>tm w d. timers s' tm = Some (CheckBridge w, d) \<longrightarrow> waiter_ok s' w"
    using t by (simp add: wk)
  ultimately show ?thesis
    unfolding registry_ok_def e by blast
qed

lemma registry_ok_dispatch_event:
  "registry_ok (dispatch_event p l b s) = registry_ok s"
  by (rule registry_ok_frame) (simp_all add: dispatch_event_def foldl_call_handler_frame)

lemma invokes_dispatch_event:
  assumes ok: "registry_ok s" and w: "waiter_ok s (AwaitDispatch p l b)"
  shows "invokes_registered s (dispatch_event p l b s)"
proof -
  from w obtain a where a: "action p = JStr a" and only: "\<And>c. eventListeners s c = Some l \<Longrightarrow> c = a"
    by auto
  have "handlers_of s a = [cb]" if "cb \<in> set (sets s l)" for cb
  proof (cases "\<exists>c. eventListeners s c = Some l")
    case True
    then obtain c where c: "eventListeners s c = Some l" by blast
    with only have "c = a" by simp
    with c have h: "handlers_of s a = sets s l" by (simp add: handlers_of_def)
    from registry_okD(2) [OF ok c] that have "sets s l = [cb]"
      by (cases "sets s l") auto
    with h show ?thesis by simp
  next
    case False
    then have "sets s l = []" using registry_okD(4) [OF ok, of l] by blast
    with that show ?thesis by simp
  qed
  with a have "\<forall>c \<in> set (map (\<lambda>cb. (cb, p)) (sets s l)). \<exists>a. action (snd c) = JStr a \<and> handlers_of s a = [fst c]"
    by auto
  then show ?thesis
    unfolding invokes_registered_def dispatch_event_def invoked_foldl_call_handler by blast
qed

lemma registry_checkBridge:
  assumes ok: "registry_ok s" and w: "waiter_ok s w"
  shows "registry_ok (checkBridge nanoid w s)" and "invokes_registered s (checkBridge nanoid w s)"
proof -
  show "registry_ok (checkBridge nanoid w s)"
  proof (cases "is_ready (getBridge s (channelName s)) \<and> is_ready (getBridge s (innerChannel (options s)))")
    case True
    then have eq: "checkBridge nanoid w s = resume nanoid w s" by (simp add: checkBridge_def)
    show ?thesis
      unfolding eq using ok
      by (cases w) (simp_all add: registry_ok_dispatch_event quiet_registry_ok [OF _ quiet_postMessage_body])
  next
    case False
    then have eq: "checkBridge nanoid w s =
        s\<lparr>timers := (timers s)(nextTimer s \<mapsto> (CheckBridge w, Some 100)), nextTimer := Suc (nextTimer s)\<rparr>"
      by (auto simp: checkBridge_def Let_def setTimeout_def)
    show ?thesis
      unfolding eq
    proof (rule registry_ok_timers [OF ok])
      fix tm w' d
      assume "timers (s\<lparr>timers := (timers s)(nextTimer s \<mapsto> (CheckBridge w, Some 100)), nextTimer := Suc (nextTimer s)\<rparr>) tm
                = Some (CheckBridge w', d)"
      then have "w' = w \<or> timers s tm = Some (CheckBridge w', d)"
        by (auto split: if_splits)
      with w registry_okD(5) [OF ok] show "waiter_ok s w'" by blast
    qed simp_all
  qed
  show "invokes_registered s (checkBridge nanoid w s)"
  proof (cases "is_ready (getBridge s (channelName s)) \<and> is_ready (getBridge s (innerChannel (options s)))")
    case True
    then have eq: "checkBridge nanoid w s = resume nanoid w s" by (simp add: checkBridge_def)
    show ?thesis
      unfolding eq using ok w
      by (cases w) (simp_all add: invokes_dispatch_event quiet_invokes quiet_postMessage_body del: waiter_ok.simps)
  next
    case False
    then have eq: "checkBridge nanoid w s =
        s\<lparr>timers := (timers s)(nextTimer s \<mapsto> (CheckBridge w, Some 100)), nextTimer := Suc (nextTimer s)\<rparr>"
      by (auto simp: checkBridge_def Let_def setTimeout_def)
    show ?thesis unfolding eq by (simp add: invokes_registered_def)
  qed
qed


lemma listeners_get_string:
  "listeners_get s v = Some l \<Longrightarrow> \<exists>a. v = JStr a \<and> eventListeners s a = Some l"
  by (cases v) simp_all

lemma waiter_ok_current:
  assumes ok: "registry_ok s" and l: "listeners_get s (action p) = Some l"
  shows "waiter_ok s (AwaitDispatch p l b)"
proof -
  from l obtain a where a: "action p = JStr a" "eventListeners s a = Some l"
    by (auto dest: listeners_get_string)
  from registry_okD(1) [OF ok a(2)] have "l < nextSet s" .
  moreover have "c = a" if "eventListeners s c = Some l" for c
    using registry_okD(3) [OF ok that a(2)] .
  ultimately show ?thesis using a(1) by auto
qed

lemma registry_dispatch_route:
  assumes ok: "registry_ok s"
  shows "registry_ok (dispatch_route nanoid p s)" and "invokes_registered s (dispatch_route nanoid p s)"
proof -
  have "registry_ok (dispatch_route nanoid p s) \<and> invokes_registered s (dispatch_route nanoid p s)"
  proof (cases "pending_get s (msg_id p)")
    case (Some pp)
    then have "dispatch_route nanoid p s = dispatch_response p pp s" by (simp add: dispatch_route_def)
    then show ?thesis
      using quiet_dispatch_response [of s p pp] ok by (simp add: quiet_registry_ok quiet_invokes)
  next
    case None
    show ?thesis
    proof (cases "truthy (action p)")
      case False
      with None have "dispatch_route nanoid p s =
          s\<lparr>console := console s @ [(Warn, ''FlutterBridgeSDK: Received message with unhandled action or ID: '')]\<rparr>"
        by (simp add: dispatch_route_def console_warn_def)
      then show ?thesis
        using quiet_console [of s] ok by (simp add: quiet_registry_ok quiet_invokes)
    next
      case True
      show ?thesis
      proof (cases "listeners_get s (action p)")
        case n: None
        with None True have "dispatch_route nanoid p s =
          s\<lparr>console := console s @ [(Warn, ''FlutterBridgeSDK: Received message with unhandled action or ID: '')]\<rparr>"
          by (simp add: dispatch_route_def console_warn_def)
        then show ?thesis
          using quiet_console [of s] ok by (simp add: quiet_registry_ok quiet_invokes)
      next
        case (Some l)
        define b where "b = getBridge s (innerChannel (options s))"
        have w: "waiter_ok s (AwaitDispatch p l b)"
          using ok Some by (rule waiter_ok_current)
        have "dispatch_route nanoid p s =
            (if b = Absent then checkBridge nanoid (AwaitDispatch p l b) s else dispatch_event p l b s)"
          using None True Some by (simp add: dispatch_route_def b_def waitForBridgeReady_def Let_def)
        then show ?thesis
          using registry_checkBridge [OF ok w, of nanoid] invokes_dispatch_event [OF ok w] ok
          by (cases "b = Absent") (simp_all add: registry_ok_dispatch_event)
      qed
    qed
  qed
  then show "registry_ok (dispatch_route nanoid p s)" and "invokes_registered s (dispatch_route nanoid p s)"
    by simp_all
qed

lemma registry_dispatch:
  assumes ok: "registry_ok s"
  shows "registry_ok (dispatch parse nanoid m s)" and "invokes_registered s (dispatch parse nanoid m s)"
proof -
  have "registry_ok (dispatch parse nanoid m s) \<and> invokes_registered s (dispatch parse nanoid m s)"
  proof (cases "parse m")
    case None
    then have "dispatch parse nanoid m s = s\<lparr>console := console s @
               [(Info, ''FlutterBridgeSDK: Received message from Flutter: '' @ m),
                (Err, ''FlutterBridgeSDK: Failed to parse message from Flutter:'')]\<rparr>"
      by (simp add: dispatch_def console_log_def console_error_def)
    then show ?thesis
      using quiet_console [of s] ok by (simp add: quiet_registry_ok quiet_invokes)
  next
    case (Some v)
    define s0 where "s0 = console_log (''FlutterBridgeSDK: Received message from Flutter: '' @ m) s"
    obtain s1 r where chk: "dispatch_check m v s0 = (s1, r)" by (cases "dispatch_check m v s0")
    obtain c where "s1 = s0\<lparr>console := c\<rparr>"
      using dispatch_check_console [of m v s0] chk by auto
    then have q: "quiet s s1"
      by (simp add: s0_def console_log_def quiet_def)
    then have ok1: "registry_ok s1" using ok by (simp add: quiet_registry_ok)
    have eq: "dispatch parse nanoid m s = (case r of None \<Rightarrow> s1 | Some p \<Rightarrow> dispatch_route nanoid p s1)"
      using Some chk by (simp add: dispatch_def s0_def)
    show ?thesis
    proof (cases r)
      case None
      with eq q ok1 show ?thesis by (simp add: quiet_invokes)
    next
      case (Some p)
      with eq registry_dispatch_route [OF ok1, of nanoid p] q show ?thesis
        by (simp add: invokes_after_quiet)
    qed
  qed
  then show "registry_ok (dispatch parse nanoid m s)" and "invokes_registered s (dispatch parse nanoid m s)"
    by simp_all
qed

lemma registry_timer_fires:
  assumes ok: "registry_ok s"
  shows "registry_ok (timer_fires nanoid tm s)" and "invokes_registered s (timer_fires nanoid tm s)"
proof -
  have "registry_ok (timer_fires nanoid tm s) \<and> invokes_registered s (timer_fires nanoid tm s)"
  proof (cases "timers s tm")
    case None
    then show ?thesis using ok by (simp add: timer_fires_def quiet_invokes quiet_refl)
  next
    case (Some cd)
    obtain cb d where cd: "cd = (cb, d)" by (cases cd)
    define s1 where "s1 = s\<lparr>timers := (timers s)(tm := None)\<rparr>"
    have q: "quiet s s1" unfolding s1_def by (rule quiet_timer_removed)
    then have ok1: "registry_ok s1" using ok by (simp add: quiet_registry_ok)
    show ?thesis
    proof (cases cb)
      case (RequestTimeout n i a t)
      then have "timer_fires nanoid tm s = request_timeout n i a t s1"
        using Some cd by (simp add: timer_fires_def s1_def)
      moreover have "quiet s (request_timeout n i a t s1)"
        using q quiet_request_timeout by (rule quiet_trans)
      ultimately show ?thesis using ok by (simp add: quiet_registry_ok quiet_invokes)
    next
      case (CheckBridge w)
      then have eq: "timer_fires nanoid tm s = checkBridge nanoid w s1"
        using Some cd by (simp add: timer_fires_def s1_def)
      from Some cd CheckBridge ok have "waiter_ok s w" by (auto dest: registry_okD(5))
      then have w1: "waiter_ok s1 w" by (simp add: quiet_waiter_ok [OF q])
      from registry_checkBridge [OF ok1 w1, of nanoid] q show ?thesis
        unfolding eq by (simp add: invokes_after_quiet)
    qed
  qed
  then show "registry_ok (timer_fires nanoid tm s)" and "invokes_registered s (timer_fires nanoid tm s)"
    by simp_all
qed

lemma quiet_postMessage_checked:
  assumes ok: "registry_ok s"
  shows "registry_ok (postMessage nanoid a d t s)" and "invokes_registered s (postMessage nanoid a d t s)"
proof -
  have w: "waiter_ok s (AwaitPost Absent a d t')" for t' by simp
  show "registry_ok (postMessage nanoid a d t s)"
    using registry_checkBridge(1) [OF ok w] quiet_registry_ok [OF ok quiet_postMessage_body]
    by (simp add: postMessage_def waitForBridgeReady_def Let_def)
  show "invokes_registered s (postMessage nanoid a d t s)"
    using registry_checkBridge(2) [OF ok w] quiet_invokes [OF quiet_postMessage_body]
    by (simp add: postMessage_def waitForBridgeReady_def Let_def)
qed


lemma listenMessage_new:
  assumes "eventListeners s a = None"
  shows "fst (listenMessage a cb s) =
     s\<lparr>sets := (sets s)(nextSet s := [cb]),
       eventListeners := (eventListeners s)(a \<mapsto> nextSet s),
       nextSet := Suc (nextSet s),
       console := console s @ [(Info, ''FlutterBridgeSDK: Listener registered for action '' @ dquote @ a @ dquote)]\<rparr>"
  using assms by (simp add: listenMessage_def Let_def console_log_def)

lemma listenMessage_same:
  assumes "eventListeners s a = Some r" and "cb \<in> set (sets s r)"
  shows "listenMessage a cb s =
     (s\<lparr>console := console s @ [(Warn, ''FlutterBridgeSDK: Listener already registered for action '' @ dquote @ a @
                                           dquote @ '' with the same callback.'')]\<rparr>,
      cancel a)"
  using assms by (simp add: listenMessage_def Let_def console_warn_def)

lemma listenMessage_replace:
  assumes "eventListeners s a = Some r" and "cb \<notin> set (sets s r)" and "sets s r \<noteq> []"
  shows "fst (listenMessage a cb s) =
     s\<lparr>sets := (sets s)(r := [cb]),
       console := console s @
         [(Warn, ''FlutterBridgeSDK: Listener already exists,the old one will be replaced with the new one.''),
          (Info, ''FlutterBridgeSDK: Listener registered for action '' @ dquote @ a @ dquote)]\<rparr>"
  using assms by (simp add: listenMessage_def Let_def console_warn_def console_log_def)

lemma cancel_registered:
  assumes "eventListeners s a = Some r"
  shows "cancel a s =
     s\<lparr>sets := (sets s)(r := []), eventListeners := (eventListeners s)(a := None),
       console := console s @ [(Info, ''FlutterBridgeSDK: No more listeners for action '' @ dquote @ a @ dquote @
                                       '', removing entry.'')]\<rparr>"
  using assms by (simp add: cancel_def console_log_def)

lemma registry_listenMessage:
  assumes ok: "registry_ok s"
  shows "registry_ok (fst (listenMessage a cb s))"
proof (cases "eventListeners s a")
  case None
  define s' where "s' = fst (listenMessage a cb s)"
  have f: "eventListeners s' = (eventListeners s)(a \<mapsto> nextSet s)" "sets s' = (sets s)(nextSet s := [cb])"
    "nextSet s' = Suc (nextSet s)" "timers s' = timers s"
    by (simp_all add: s'_def listenMessage_new [OF None])
  have old: "r < nextSet s" if "eventListeners s c = Some r" for c r
    using registry_okD(1) [OF ok that] .
  have "registry_ok s'"
  proof (rule registry_okI)
    fix c r assume h: "eventListeners s' c = Some r"
    show "r < nextSet s' \<and> length (sets s' r) = 1"
    proof (cases "c = a")
      case True
      with h show ?thesis by (simp add: f)
    next
      case False
      with h have o: "eventListeners s c = Some r" by (simp add: f)
      from old [OF o] registry_okD(2) [OF ok o] show ?thesis by (simp add: f)
    qed
  next
    fix c1 c2 r assume h: "eventListeners s' c1 = Some r" "eventListeners s' c2 = Some r"
    show "c1 = c2"
    proof (cases "r = nextSet s")
      case True
      have only: "c = a" if "eventListeners s' c = Some (nextSet s)" for c
      proof (rule ccontr)
        assume "c \<noteq> a"
        with that have "eventListeners s c = Some (nextSet s)" by (simp add: f)
        from old [OF this] show False by simp
      qed
      from h True have "c1 = a" "c2 = a" by (auto intro: only)
      then show ?thesis by simp
    next
      case False
      with h have "eventListeners s c1 = Some r" "eventListeners s c2 = Some r"
        by (auto simp: f split: if_splits)
      then show ?thesis by (rule registry_okD(3) [OF ok])
    qed
  next
    fix r assume h: "\<forall>c. eventListeners s' c \<noteq> Some r"
    have ne: "r \<noteq> nextSet s"
    proof
      assume "r = nextSet s"
      then have "eventListeners s' a = Some r" by (simp add: f)
      with h show False by simp
    qed
    have "eventListeners s c \<noteq> Some r" for c
      using h [rule_format, of c] None by (auto simp: f split: if_splits)
    then have "sets s r = []" by (rule registry_okD(4) [OF ok])
    with ne show "sets s' r = []" by (simp add: f)
  next
    fix tm w d assume "timers s' tm = Some (CheckBridge w, d)"
    then have w: "waiter_ok s w" using registry_okD(5) [OF ok] by (simp add: f)
    show "waiter_ok s' w"
    proof (cases w)
      case (AwaitPost b x y z)
      with w show ?thesis by simp
    next
      case (AwaitDispatch p r b)
      with w obtain a0 where a0: "r < nextSet s" "action p = JStr a0"
        "\<And>c. eventListeners s c = Some r \<Longrightarrow> c = a0" by auto
      have "c = a0" if "eventListeners s' c = Some r" for c
      proof (cases "c = a")
        case True
        with that a0(1) show ?thesis by (simp add: f)
      next
        case False
        with that show ?thesis by (simp add: f a0(3))
      qed
      with a0 AwaitDispatch show ?thesis by (auto simp: f)
    qed
  qed
  then show ?thesis by (simp add: s'_def)
next
  case (Some r)
  show ?thesis
  proof (cases "cb \<in> set (sets s r)")
    case True
    then show ?thesis
      using ok quiet_console [of s] by (simp add: listenMessage_same [OF Some] quiet_registry_ok)
  next
    case False
    from registry_okD(2) [OF ok Some] have ne: "sets s r \<noteq> []" by auto
    define s' where "s' = fst (listenMessage a cb s)"
    have f: "eventListeners s' = eventListeners s" "sets s' = (sets s)(r := [cb])"
      "nextSet s' = nextSet s" "timers s' = timers s"
      by (simp_all add: s'_def listenMessage_replace [OF Some False ne])
    have "registry_ok s'"
    proof (rule registry_okI)
      fix c r' assume h: "eventListeners s' c = Some r'"
      then have o: "eventListeners s c = Some r'" by (simp add: f)
      from registry_okD(1) [OF ok o] registry_okD(2) [OF ok o]
      show "r' < nextSet s' \<and> length (sets s' r') = 1" by (simp add: f)
    next
      fix c1 c2 r' assume "eventListeners s' c1 = Some r'" "eventListeners s' c2 = Some r'"
      then show "c1 = c2" using registry_okD(3) [OF ok] by (simp add: f)
    next
      fix r' assume h: "\<forall>c. eventListeners s' c \<noteq> Some r'"
      with Some have ne': "r' \<noteq> r" by (auto simp: f)
      from h have "sets s r' = []" using registry_okD(4) [OF ok, of r'] by (simp add: f)
      with ne' show "sets s' r' = []" by (simp add: f)
    next
      fix tm w d assume "timers s' tm = Some (CheckBridge w, d)"
      then have "waiter_ok s w" using registry_okD(5) [OF ok] by (simp add: f)
      then show "waiter_ok s' w" by (cases w) (simp_all add: f)
    qed
    then show ?thesis by (simp add: s'_def)
  qed
qed

lemma registry_cancel:
  assumes ok: "registry_ok s"
  shows "registry_ok (cancel a s)"
proof (cases "eventListeners s a")
  case None
  then show ?thesis using ok by (simp add: cancel_def)
next
  case (Some r)
  define s' where "s' = cancel a s"
  have f: "eventListeners s' = (eventListeners s)(a := None)" "sets s' = (sets s)(r := [])"
    "nextSet s' = nextSet s" "timers s' = timers s"
    by (simp_all add: s'_def cancel_registered [OF Some])
  have "registry_ok s'"
  proof (rule registry_okI)
    fix c r' assume h: "eventListeners s' c = Some r'"
    then have ca: "c \<noteq> a" and o: "eventListeners s c = Some r'" by (auto simp: f split: if_splits)
    have "r' \<noteq> r"
    proof
      assume "r' = r"
      with o Some have "c = a" using registry_okD(3) [OF ok] by blast
      with ca show False by simp
    qed
    with registry_okD(1) [OF ok o] registry_okD(2) [OF ok o]
    show "r' < nextSet s' \<and> length (sets s' r') = 1" by (simp add: f)
  next
    fix c1 c2 r' assume "eventListeners s' c1 = Some r'" "eventListeners s' c2 = Some r'"
    then have "eventListeners s c1 = Some r'" "eventListeners s c2 = Some r'"
      by (auto simp: f split: if_splits)
    then show "c1 = c2" by (rule registry_okD(3) [OF ok])
  next
    fix r' assume h: "\<forall>c. eventListeners s' c \<noteq> Some r'"
    show "sets s' r' = []"
    proof (cases "r' = r")
      case True
      then show ?thesis by (simp add: f)
    next
      case False
      have "eventListeners s c \<noteq> Some r'" for c
      proof
        assume o: "eventListeners s c = Some r'"
        with Some False have "c \<noteq> a" by auto
        with o have "eventListeners s' c = Some r'" by (simp add: f)
        with h show False by simp
      qed
      then have "sets s r' = []" by (rule registry_okD(4) [OF ok])
      with False show ?thesis by (simp add: f)
    qed
  next
    fix tm w d assume "timers s' tm = Some (CheckBridge w, d)"
    then have w: "waiter_ok s w" using registry_okD(5) [OF ok] by (simp add: f)
    show "waiter_ok s' w"
    proof (cases w)
      case (AwaitPost b x y z)
      with w show ?thesis by simp
    next
      case (AwaitDispatch p r0 b)
      with w obtain a0 where a0: "r0 < nextSet s" "action p = JStr a0"
        "\<And>c. eventListeners s c = Some r0 \<Longrightarrow> c = a0" by auto
      have "c = a0" if "eventListeners s' c = Some r0" for c
        using that a0(3) [of c] by (auto simp: f split: if_splits)
      with a0 AwaitDispatch show ?thesis by (auto simp: f)
    qed
  qed
  then show ?thesis by (simp add: s'_def)
qed

lemma invoked_listenMessage: "invoked (fst (listenMessage a cb s)) = invoked s"
  by (simp add: listenMessage_def Let_def console_warn_def console_log_def)

lemma invoked_cancel: "invoked (cancel a s) = invoked s"
  by (simp add: cancel_def console_log_def split: option.splits)

lemma registry_step:
  assumes ok: "registry_ok s"
  shows "registry_ok (step parse nanoid e s)" and "invokes_registered s (step parse nanoid e s)"
proof -
  have "registry_ok (step parse nanoid e s) \<and> invokes_registered s (step parse nanoid e s)"
  proof (cases e)
    case (PostMessage a d t)
    then show ?thesis using quiet_postMessage_checked [OF ok] by simp
  next
    case (Dispatch m)
    then show ?thesis using registry_dispatch [OF ok] by simp
  next
    case (ListenMessage a cb)
    then show ?thesis
      using registry_listenMessage [OF ok] by (simp add: invokes_registered_def invoked_listenMessage)
  next
    case (Cancel a)
    then show ?thesis
      using registry_cancel [OF ok] by (simp add: invokes_registered_def invoked_cancel)
  next
    case (TimerFires tm)
    then show ?thesis using registry_timer_fires [OF ok] by simp
  next
    case (HandlerSettles k r)
    then show ?thesis
      using quiet_handler_settled [of s k r] ok by (simp add: quiet_registry_ok quiet_invokes)
  next
    case (HostSets name b)
    have "quiet s (s\<lparr>window := (window s)(name := b)\<rparr>)" by (simp add: quiet_def)
    with HostSets ok show ?thesis by (simp add: quiet_registry_ok quiet_invokes)
  qed
  then show "registry_ok (step parse nanoid e s)" and "invokes_registered s (step parse nanoid e s)"
    by simp_all
qed

lemma reachable_registry_ok:
  assumes "reachable parse nanoid s"
  shows "registry_ok s"
  using assms by (induction rule: reachable.induct) (simp_all add: registry_ok_init registry_step)


lemma handlers_of_single:
  assumes "handlers_of s a = [h]"
  shows "\<exists>r. eventListeners s a = Some r \<and> sets s r = [h]"
  using assms by (cases "eventListeners s a") (simp_all add: handlers_of_def)

lemma handlers_of_length:
  assumes "registry_ok s"
  shows "length (handlers_of s a) \<le> 1"
proof (cases "eventListeners s a")
  case None
  then show ?thesis by (simp add: handlers_of_def)
next
  case (Some r)
  with registry_okD(2) [OF assms Some] show ?thesis by (simp add: handlers_of_def)
qed


lemma keeps_registry_refl: "keeps_registry s s"
  by (simp add: keeps_registry_def)

lemma keeps_registry_trans: "keeps_registry s s' \<Longrightarrow> keeps_registry s' s'' \<Longrightarrow> keeps_registry s s''"
  by (simp add: keeps_registry_def)

lemma quiet_keeps_registry: "quiet s s' \<Longrightarrow> keeps_registry s s'"
  by (simp add: quiet_def keeps_registry_def)

lemma keeps_registry_dispatch_event: "keeps_registry s (dispatch_event p l b s)"
  by (simp add: keeps_registry_def dispatch_event_def foldl_call_handler_frame)

lemma keeps_registry_checkBridge: "keeps_registry s (checkBridge nanoid w s)"
proof (cases "is_ready (getBridge s (channelName s)) \<and> is_ready (getBridge s (innerChannel (options s)))")
  case True
  then have "checkBridge nanoid w s = resume nanoid w s" by (simp add: checkBridge_def)
  then show ?thesis
    by (cases w) (simp_all add: keeps_registry_dispatch_event quiet_keeps_registry quiet_postMessage_body)
next
  case False
  then have "checkBridge nanoid w s = snd (setTimeout (CheckBridge w) (Some 100) s)"
    by (auto simp: checkBridge_def Let_def)
  then show ?thesis by (simp add: keeps_registry_def setTimeout_def)
qed

lemma keeps_registry_postMessage: "keeps_registry s (postMessage nanoid a d t s)"
  by (simp add: postMessage_def waitForBridgeReady_def Let_def keeps_registry_checkBridge
      quiet_keeps_registry quiet_postMessage_body)

lemma keeps_registry_dispatch_route: "keeps_registry s (dispatch_route nanoid p s)"
  by (auto simp: dispatch_route_def Let_def waitForBridgeReady_def keeps_registry_checkBridge
      keeps_registry_dispatch_event quiet_keeps_registry quiet_dispatch_response console_warn_def
      quiet_console split: option.splits)

lemma keeps_registry_dispatch: "keeps_registry s (dispatch parse nanoid m s)"
proof (cases "parse m")
  case None
  then show ?thesis
    by (simp add: dispatch_def console_log_def console_error_def keeps_registry_def)
next
  case (Some v)
  define s0 where "s0 = console_log (''FlutterBridgeSDK: Received message from Flutter: '' @ m) s"
  obtain s1 r where chk: "dispatch_check m v s0 = (s1, r)" by (cases "dispatch_check m v s0")
  obtain c where "s1 = s0\<lparr>console := c\<rparr>"
    using dispatch_check_console [of m v s0] chk by auto
  then have k: "keeps_registry s s1"
    by (simp add: s0_def console_log_def keeps_registry_def)
  have "dispatch parse nanoid m s = (case r of None \<Rightarrow> s1 | Some p \<Rightarrow> dispatch_route nanoid p s1)"
    using Some chk by (simp add: dispatch_def s0_def)
  then show ?thesis
    using k keeps_registry_dispatch_route [of s1 nanoid] keeps_registry_trans [of s s1]
    by (cases r) auto
qed

lemma keeps_registry_timer_fires: "keeps_registry s (timer_fires nanoid tm s)"
proof (cases "timers s tm")
  case None
  then show ?thesis by (simp add: timer_fires_def keeps_registry_refl)
next
  case (Some cd)
  obtain cb d where cd: "cd = (cb, d)" by (cases cd)
  have 1: "keeps_registry s (s\<lparr>timers := (timers s)(tm := None)\<rparr>)"
    by (simp add: keeps_registry_def)
  show ?thesis
  proof (cases cb)
    case (RequestTimeout n i a t)
    have "keeps_registry (s\<lparr>timers := (timers s)(tm := None)\<rparr>)
       (request_timeout n i a t (s\<lparr>timers := (timers s)(tm := None)\<rparr>))"
      by (rule quiet_keeps_registry) (rule quiet_request_timeout)
    with 1 have "keeps_registry s (request_timeout n i a t (s\<lparr>timers := (timers s)(tm := None)\<rparr>))"
      by (rule keeps_registry_trans)
    with Some cd RequestTimeout show ?thesis by (simp add: timer_fires_def)
  next
    case (CheckBridge w)
    from 1 keeps_registry_checkBridge
    have "keeps_registry s (checkBridge nanoid w (s\<lparr>timers := (timers s)(tm := None)\<rparr>))"
      by (rule keeps_registry_trans)
    with Some cd CheckBridge show ?thesis by (simp add: timer_fires_def)
  qed
qed

lemma handlers_of_eq:
  assumes "eventListeners s' a = eventListeners s a"
    and "\<And>r. eventListeners s a = Some r \<Longrightarrow> sets s' r = sets s r"
  shows "handlers_of s' a = handlers_of s a"
  using assms by (cases "eventListeners s a") (simp_all add: handlers_of_def)

lemma keeps_registry_handlers_of: "keeps_registry s s' \<Longrightarrow> handlers_of s' a = handlers_of s a"
  by (rule handlers_of_eq) (simp_all add: keeps_registry_def)

lemma handlers_of_listen_other:
  assumes ok: "registry_ok s" and ba: "b \<noteq> a"
  shows "handlers_of (fst (listenMessage b cb s)) a = handlers_of s a"
proof (cases "eventListeners s b")
  case None
  have "r \<noteq> nextSet s" if "eventListeners s a = Some r" for r
    using registry_okD(1) [OF ok that] by simp
  then show ?thesis
    using ba by (intro handlers_of_eq) (simp_all add: listenMessage_new [OF None])
next
  case (Some r)
  show ?thesis
  proof (cases "cb \<in> set (sets s r)")
    case True
    then show ?thesis by (intro handlers_of_eq) (simp_all add: listenMessage_same [OF Some])
  next
    case False
    from registry_okD(2) [OF ok Some] have ne: "sets s r \<noteq> []" by auto
    have "r' \<noteq> r" if "eventListeners s a = Some r'" for r'
      using registry_okD(3) [OF ok that, of b] Some ba by auto
    then show ?thesis
      by (intro handlers_of_eq) (simp_all add: listenMessage_replace [OF Some False ne])
  qed
qed

lemma handlers_of_cancel_other:
  assumes ok: "registry_ok s" and ba: "b \<noteq> a"
  shows "handlers_of (cancel b s) a = handlers_of s a"
proof (cases "eventListeners s b")
  case None
  then show ?thesis by (simp add: cancel_def)
next
  case (Some r)
  have "r' \<noteq> r" if "eventListeners s a = Some r'" for r'
    using registry_okD(3) [OF ok that, of b] Some ba by auto
  then show ?thesis
    using ba by (intro handlers_of_eq) (simp_all add: cancel_registered [OF Some])
qed

lemma handlers_of_step_other:
  assumes ok: "registry_ok s" and e: "\<And>cb. e \<noteq> ListenMessage a cb" "e \<noteq> Cancel a"
  shows "handlers_of (step parse nanoid e s) a = handlers_of s a"
proof (cases e)
  case (ListenMessage b cb)
  with e(1) have "b \<noteq> a" by auto
  with ok ListenMessage show ?thesis by (simp add: handlers_of_listen_other)
next
  case (Cancel b)
  with e(2) have "b \<noteq> a" by auto
  with ok Cancel show ?thesis by (simp add: handlers_of_cancel_other)
next
  case (HandlerSettles k r)
  with quiet_handlers_of [OF quiet_handler_settled [of s k r]] show ?thesis by simp
next
  case (HostSets name b)
  have "handlers_of (s\<lparr>window := (window s)(name := b)\<rparr>) a = handlers_of s a"
    by (rule handlers_of_eq) simp_all
  with HostSets show ?thesis by simp
qed (simp_all add: keeps_registry_handlers_of keeps_registry_postMessage keeps_registry_dispatch
      keeps_registry_timer_fires)


lemma cancel_removes: "eventListeners (cancel a s) a = None" "handlers_of (cancel a s) a = []"
  by (cases "eventListeners s a"; simp add: cancel_def console_log_def handlers_of_def)+

lemma listening_reachable:
  "reachable example_parse example_nanoid (fst (listenMessage ''evt'' 2 page_ready))"
proof -
  have "reachable example_parse example_nanoid
          (step example_parse example_nanoid (ListenMessage ''evt'' 2) page_ready)"
    unfolding page_ready_def by (rule reachable_step) (rule reachable_init)
  then show ?thesis by simp
qed

lemma listening_handlers: "handlers_of (fst (listenMessage ''evt'' 2 page_ready)) ''evt'' = [2]"
  by (simp add: handlers_of_def listening_fields)

section \<open>One handler per action\<close>

text \<open>
  C9. In every state the system can reach, an action has at most one registered handler.
  Registering a handler \<open>h2\<close> for an action that holds a different one leaves \<open>h2\<close> as
  the only handler of the action and logs the replacement warning. Every step of the
  system, whether a dispatch or a dispatch resumed after waiting for the bridges, calls
  only handlers that are, at that time, the registered handler of the action of the
  envelope; and the handler of an action changes only by \<open>listenMessage\<close> or a cancel
  function for that action. So after the eviction every call for the action goes to the
  new handler, and the dispatch of an event for the action, with the acknowledgement
  channel present, calls it.
\<close>

theorem one_active_handler:
  assumes "reachable parse nanoid s"
  shows "length (handlers_of s a) \<le> 1
       \<and> (\<forall>h1 h2. handlers_of s a = [h1] \<and> h2 \<noteq> h1 \<longrightarrow>
             handlers_of (fst (listenMessage a h2 s)) a = [h2] \<and>
             console (fst (listenMessage a h2 s)) = console s @
               [(Warn, ''FlutterBridgeSDK: Listener already exists,the old one will be replaced with the new one.''),
                (Info, ''FlutterBridgeSDK: Listener registered for action '' @ dquote @ a @ dquote)])
       \<and> (\<forall>e. \<exists>new. invoked (step parse nanoid e s) = invoked s @ new \<and>
             (\<forall>c \<in> set new. \<exists>a'. action (snd c) = JStr a' \<and> handlers_of s a' = [fst c]))
       \<and> (\<forall>e. (\<forall>cb. e \<noteq> ListenMessage a cb) \<and> e \<noteq> Cancel a \<longrightarrow>
             handlers_of (step parse nanoid e s) a = handlers_of s a)
       \<and> (\<forall>m p h. parse m = Some (Envelope p) \<and> pending_get s (msg_id p) = None \<and>
             action p = JStr a \<and> a \<noteq> [] \<and> handlers_of s a = [h] \<and>
             window s (innerChannel (options s)) \<noteq> Absent \<longrightarrow>
             invoked (dispatch parse nanoid m s) = invoked s @ [(h, p)])"
proof -
  from assms have ok: "registry_ok s" by (rule reachable_registry_ok)
  have 1: "length (handlers_of s a) \<le> 1"
    using ok by (rule handlers_of_length)
  have 2: "handlers_of (fst (listenMessage a h2 s)) a = [h2] \<and>
             console (fst (listenMessage a h2 s)) = console s @
               [(Warn, ''FlutterBridgeSDK: Listener already exists,the old one will be replaced with the new one.''),
                (Info, ''FlutterBridgeSDK: Listener registered for action '' @ dquote @ a @ dquote)]"
    if "handlers_of s a = [h1]" "h2 \<noteq> h1" for h1 h2
  proof -
    from that(1) obtain r where r: "eventListeners s a = Some r" "sets s r = [h1]"
      by (auto dest: handlers_of_single)
    with that(2) have "h2 \<notin> set (sets s r)" "sets s r \<noteq> []" by simp_all
    from listenMessage_replace [OF r(1) this] r(1) show ?thesis
      by (simp add: handlers_of_def)
  qed
  have 3: "\<exists>new. invoked (step parse nanoid e s) = invoked s @ new \<and>
             (\<forall>c \<in> set new. \<exists>a'. action (snd c) = JStr a' \<and> handlers_of s a' = [fst c])" for e
    using registry_step(2) [OF ok, of parse nanoid e] by (simp add: invokes_registered_def)
  have 4: "handlers_of (step parse nanoid e s) a = handlers_of s a"
    if "\<forall>cb. e \<noteq> ListenMessage a cb" "e \<noteq> Cancel a" for e
    using that by (intro handlers_of_step_other [OF ok]) simp_all
  have 5: "invoked (dispatch parse nanoid m s) = invoked s @ [(h, p)]"
    if "parse m = Some (Envelope p)" "pending_get s (msg_id p) = None" "action p = JStr a" "a \<noteq> []"
      "handlers_of s a = [h]" "window s (innerChannel (options s)) \<noteq> Absent" for m p h
  proof -
    from that(5) obtain r where r: "eventListeners s a = Some r" "sets s r = [h]"
      by (auto dest: handlers_of_single)
    show ?thesis
      using dispatch_to_handler [where parse = parse and m = m and nanoid = nanoid and s = s and a = a
          and l = r and cb = h and b = "window s (innerChannel (options s))" and p = p] that r
      by simp
  qed
  from 1 2 3 4 5 show ?thesis by blast
qed

theorem one_active_handler_witness:
  "reachable example_parse example_nanoid (fst (listenMessage ''evt'' 2 page_ready))
   \<and> handlers_of (fst (listenMessage ''evt'' 2 page_ready)) ''evt'' = [2]
   \<and> handlers_of (fst (listenMessage ''evt'' 3 (fst (listenMessage ''evt'' 2 page_ready)))) ''evt'' = [3]
   \<and> invoked (dispatch example_parse example_nanoid event_7 (fst (listenMessage ''evt'' 2 page_ready))) =
       [(2, event_7_payload)]"
proof -
  let ?s = "fst (listenMessage ''evt'' 2 page_ready)"
  note t = one_active_handler [OF listening_reachable, of "''evt''"]
  note t2 = t [THEN conjunct2, THEN conjunct1, rule_format, of 2 3]
  note t5 = t [THEN conjunct2, THEN conjunct2, THEN conjunct2, THEN conjunct2, rule_format,
      of event_7 event_7_payload 2]
  from t2 listening_handlers have a: "handlers_of (fst (listenMessage ''evt'' 3 ?s)) ''evt'' = [3]"
    by simp
  have h: "pending_get ?s (msg_id event_7_payload) = None" "action event_7_payload = JStr ''evt''"
    "window ?s (innerChannel (options ?s)) \<noteq> Absent"
    by (simp_all add: event_7_payload_def listening_fields both_bridges_def)
  from t5 example_parse_event_7 h listening_handlers
  have "invoked (dispatch example_parse example_nanoid event_7 ?s) = invoked ?s @ [(2, event_7_payload)]"
    by simp
  then have b: "invoked (dispatch example_parse example_nanoid event_7 ?s) = [(2, event_7_payload)]"
    by (simp add: listening_fields)
  from listening_reachable listening_handlers a b show ?thesis by simp
qed

section \<open>Registering the same handler twice\<close>

text \<open>
  C10, read as saying that the function returned by the second registration does nothing
  when it is invoked, fails on the code: both registrations return the closure \<open>cancel\<close>,
  and invoking it removes the registration, after which an event for the action calls no
  handler.
\<close>

theorem returned_cancel_removes_registration:
  "handlers_of (fst (listenMessage ''evt'' 2 (fst (listenMessage ''evt'' 2 page_ready)))) ''evt'' = [2]
   \<and> handlers_of
        (snd (listenMessage ''evt'' 2 (fst (listenMessage ''evt'' 2 page_ready)))
           (fst (listenMessage ''evt'' 2 (fst (listenMessage ''evt'' 2 page_ready))))) ''evt'' = []
   \<and> invoked (dispatch example_parse example_nanoid event_7
        (snd (listenMessage ''evt'' 2 (fst (listenMessage ''evt'' 2 page_ready)))
           (fst (listenMessage ''evt'' 2 (fst (listenMessage ''evt'' 2 page_ready)))))) = []"
  by (simp add: example_eval cancel_def handlers_of_def page_ready_def both_bridges_def)

text \<open>
  C10, amended. Registering for an action the handler that is already registered for it
  leaves the registry as it is (the handler stays registered once) and logs a warning; the
  function it returns is the one that every registration for this action returns, and
  invoking it, in any state, removes the registration of the action.
\<close>

theorem duplicate_registration:
  assumes "h \<in> set (handlers_of s a)"
  shows "eventListeners (fst (listenMessage a h s)) = eventListeners s
       \<and> sets (fst (listenMessage a h s)) = sets s
       \<and> handlers_of (fst (listenMessage a h s)) a = handlers_of s a
       \<and> console (fst (listenMessage a h s)) = console s @
            [(Warn, ''FlutterBridgeSDK: Listener already registered for action '' @ dquote @ a @ dquote @
                    '' with the same callback.'')]
       \<and> (\<forall>h0 s0. snd (listenMessage a h s) = snd (listenMessage a h0 s0))
       \<and> (\<forall>s'. eventListeners (snd (listenMessage a h s) s') a = None \<and>
                handlers_of (snd (listenMessage a h s) s') a = [])"
proof -
  from assms obtain r where r: "eventListeners s a = Some r" "h \<in> set (sets s r)"
    by (cases "eventListeners s a") (simp_all add: handlers_of_def)
  have c: "snd (listenMessage a h0 s0) = cancel a" for h0 s0
    by (simp add: listenMessage_def Let_def)
  have f: "fst (listenMessage a h s) =
      s\<lparr>console := console s @
            [(Warn, ''FlutterBridgeSDK: Listener already registered for action '' @ dquote @ a @ dquote @
                    '' with the same callback.'')]\<rparr>"
    by (simp add: listenMessage_same [OF r])
  have g: "handlers_of (s\<lparr>console := x\<rparr>) a = handlers_of s a" for x
    by (rule handlers_of_eq) simp_all
  show ?thesis
    unfolding c by (simp add: f g cancel_removes)
qed


theorem duplicate_registration_witness:
  "2 \<in> set (handlers_of (fst (listenMessage ''evt'' 2 page_ready)) ''evt'')
   \<and> handlers_of (fst (listenMessage ''evt'' 2 (fst (listenMessage ''evt'' 2 page_ready)))) ''evt'' = [2]
   \<and> eventListeners
        (snd (listenMessage ''evt'' 2 (fst (listenMessage ''evt'' 2 page_ready)))
           (fst (listenMessage ''evt'' 2 (fst (listenMessage ''evt'' 2 page_ready))))) ''evt'' = None"
proof -
  have h: "2 \<in> set (handlers_of (fst (listenMessage ''evt'' 2 page_ready)) ''evt'')"
    by (simp add: listening_handlers)
  from duplicate_registration [OF h] h listening_handlers show ?thesis by simp
qed


section \<open>The error of a failure response\<close>

text \<open>
  C3, as stated, fails on the code: the envelope \<open>{"id":"x","code":0}\<close> is a failure
  whose code is present, and the message of the rejection says \<open>unknown\<close>, because
  \<open>payload.code || "unknown"\<close> treats 0 as missing.
\<close>

theorem unknown_for_code_zero:
  "example_parse response_x_0 =
     Some (Envelope \<lparr>action = JUndefined, msg_id = JStr ''x'', data = JUndefined, code = Some 0, errorMessage = None\<rparr>)
   \<and> pendingPromises one_request ''x'' = Some \<lparr>promise = 0, timer = 0\<rparr>
   \<and> settled (dispatch example_parse example_nanoid response_x_0 one_request) =
       [(0, Rejected (ErrorWithCode [Lit ''Flutter request failed with code '', Lit ''unknown''] (Some 0)))]"
  using dispatch_answer [where parse = example_parse and m = response_x_0 and i = "''x''"
      and s = one_request and nanoid = example_nanoid, OF example_parse_x_0 _ one_request_pending]
    example_parse_x_0 one_request_pending
  by (simp add: is_success_def failure_message_def one_request_settled)

text \<open>
  C3, amended. For a failure response to a pending request the promise is rejected with an
  error that carries the envelope's code, and whose message is the errorMessage when that
  is present and not empty; otherwise the message is the text
  \<open>Flutter request failed with code\<close> followed by the code, as the template literal
  prints the number, when the code is present and not 0, and by \<open>unknown\<close> when the code
  is absent or 0.
\<close>

theorem failure_response_error:
  assumes "parse m = Some (Envelope p)" and "msg_id p = JStr i" and "pendingPromises s i = Some pp"
    and "\<not> ((\<exists>c. code p = Some c \<and> 200 \<le> c \<and> c < 300) \<or> (code p = None \<and> errorMessage p = None))"
  shows "(\<forall>e. errorMessage p = Some e \<and> e \<noteq> [] \<longrightarrow>
            settled (dispatch parse nanoid m s) =
              settled s @ [(promise pp, Rejected (ErrorWithCode [Lit e] (code p)))])
       \<and> (errorMessage p = None \<or> errorMessage p = Some [] \<longrightarrow>
            (\<forall>c. code p = Some c \<and> c \<noteq> 0 \<longrightarrow>
               settled (dispatch parse nanoid m s) =
                 settled s @ [(promise pp, Rejected (ErrorWithCode
                    [Lit ''Flutter request failed with code '', Num c] (Some c)))]) \<and>
            (code p = None \<or> code p = Some 0 \<longrightarrow>
               settled (dispatch parse nanoid m s) =
                 settled s @ [(promise pp, Rejected (ErrorWithCode
                    [Lit ''Flutter request failed with code '', Lit ''unknown''] (code p)))]))"
proof -
  from assms(4) have "\<not> is_success p" by (simp add: is_success_iff)
  with assms have "settled (dispatch parse nanoid m s) =
      settled s @ [(promise pp, Rejected (ErrorWithCode (failure_message p) (code p)))]"
    using settled_dispatch_matching [where parse = parse and m = m and p = p and i = i and s = s
      and pp = pp and nanoid = nanoid] by simp
  then show ?thesis
    by (auto simp: failure_message_def)
qed

theorem failure_response_error_witness:
  "example_parse response_x_500 =
     Some (Envelope \<lparr>action = JUndefined, msg_id = JStr ''x'', data = JUndefined, code = Some 500,
                     errorMessage = Some ''bad''\<rparr>)
   \<and> pendingPromises one_request ''x'' = Some \<lparr>promise = 0, timer = 0\<rparr>
   \<and> settled (dispatch example_parse example_nanoid response_x_500 one_request) =
       [(0, Rejected (ErrorWithCode [Lit ''bad''] (Some 500)))]"
  using failure_response_error [where parse = example_parse and m = response_x_500 and i = "''x''"
      and s = one_request and nanoid = example_nanoid, OF example_parse_x_500 _ one_request_pending]
    example_parse_x_500 one_request_pending
  by (simp add: one_request_settled)


section \<open>Timeout\<close>

lemmas request_eval =
  run_def FlutterBridgeSDK_def postMessage_def postMessage_body_def waitForBridgeReady_def checkBridge_def
  setTimeout_def clearTimeout_def settle_def timer_fires_def request_timeout_def bridge_postMessage_def
  getBridge_def console_log_def console_error_def example_nanoid_def Let_def

text \<open>
  C5, as stated, fails on the code. On a page whose outbound bridge throws, a request with
  a timeout of 50 ms draws its identifier, gets no response, and is rejected with what the
  host threw; the \<open>catch\<close> block has cleared its timer, so no timeout error follows. On a
  page without bridges the call has no identifier, no entry and no timeout timer while it
  waits: after two polls of 100 ms nothing is settled and the only timer is the next poll.
  Once the host has injected both bridges, the next poll resumes the call, which sends
  nothing and is rejected with a \<open>TypeError\<close>, because \<open>nativeBridge\<close> was read before the
  wait.
\<close>

theorem request_without_timeout_error:
  "window page_outbound_throws (channelName page_outbound_throws) = Sender False
   \<and> issued (postMessage example_nanoid ''getUserInfo'' JNull (Some 50) page_outbound_throws) = 1
   \<and> settled (postMessage example_nanoid ''getUserInfo'' JNull (Some 50) page_outbound_throws) =
       [(0, Rejected HostError)]
   \<and> timers (postMessage example_nanoid ''getUserInfo'' JNull (Some 50) page_outbound_throws) 0 = None
   \<and> settled (run example_parse example_nanoid
        [PostMessage ''getUserInfo'' JNull (Some 50), TimerFires 0] page_outbound_throws) =
       [(0, Rejected HostError)]
   \<and> window page_no_bridges (channelName page_no_bridges) = Absent
   \<and> issued (run example_parse example_nanoid
        [PostMessage ''getUserInfo'' JNull (Some 50), TimerFires 0, TimerFires 1] page_no_bridges) = 0
   \<and> settled (run example_parse example_nanoid
        [PostMessage ''getUserInfo'' JNull (Some 50), TimerFires 0, TimerFires 1] page_no_bridges) = []
   \<and> timers (run example_parse example_nanoid
        [PostMessage ''getUserInfo'' JNull (Some 50), TimerFires 0, TimerFires 1] page_no_bridges) 0 = None
   \<and> timers (run example_parse example_nanoid
        [PostMessage ''getUserInfo'' JNull (Some 50), TimerFires 0, TimerFires 1] page_no_bridges) 1 = None
   \<and> timers (run example_parse example_nanoid
        [PostMessage ''getUserInfo'' JNull (Some 50), TimerFires 0, TimerFires 1] page_no_bridges) 2 =
       Some (CheckBridge (AwaitPost Absent ''getUserInfo'' JNull (Some 50)), Some 100)
   \<and> settled (run example_parse example_nanoid
        [PostMessage ''getUserInfo'' JNull (Some 50), TimerFires 0, TimerFires 1,
         HostSets ''client_to_native_channel'' (Sender True),
         HostSets ''native_to_client_channel'' (Sender True),
         TimerFires 2] page_no_bridges) =
       [(0, Rejected TypeError)]
   \<and> outbox (run example_parse example_nanoid
        [PostMessage ''getUserInfo'' JNull (Some 50), TimerFires 0, TimerFires 1,
         HostSets ''client_to_native_channel'' (Sender True),
         HostSets ''native_to_client_channel'' (Sender True),
         TimerFires 2] page_no_bridges) = []"
  by (simp add: request_eval page_outbound_throws_def outbound_throws_def page_no_bridges_def)

text \<open>
  C5, amended. With an identifier generator that never repeats an identifier: a request
  that \<open>postMessage\<close> sent over an outbound bridge that was present at the call and
  accepted the message, and that is still pending after any further events, still has its
  timeout timer armed, with the timeout of the call (the argument, or the option when the
  argument is missing). When that timer fires the promise is rejected, once, with the
  error whose message names the action, the identifier and the timeout; the entry is
  removed, and no timer of that request remains.
\<close>

theorem timeout_rejects:
  assumes inj: "inj nanoid" and reach: "reachable parse nanoid s"
    and bridge: "window s (channelName s) = Sender True"
    and pending: "pendingPromises (run parse nanoid es (postMessage nanoid a d targ s)) (nanoid (issued s)) \<noteq> None"
  shows "timers (run parse nanoid es (postMessage nanoid a d targ s)) (nextTimer s) =
           Some (RequestTimeout (issued s) (nanoid (issued s)) a
                   (case targ of None \<Rightarrow> timeout (options s) | Some t' \<Rightarrow> Some t'),
                 case targ of None \<Rightarrow> timeout (options s) | Some t' \<Rightarrow> Some t')
       \<and> calls (issued s)
            (step parse nanoid (TimerFires (nextTimer s)) (run parse nanoid es (postMessage nanoid a d targ s))) =
           [Rejected (Error
              [Lit (''FlutterBridgeSDK: Request timed out for action '' @ dquote @ a @ dquote @
                    '' (id: '' @ nanoid (issued s) @ '') after ''),
               (case (case targ of None \<Rightarrow> timeout (options s) | Some t' \<Rightarrow> Some t') of
                  None \<Rightarrow> Lit ''undefined'' | Some ms \<Rightarrow> Num ms),
               Lit ''ms''])]
       \<and> pendingPromises
            (step parse nanoid (TimerFires (nextTimer s)) (run parse nanoid es (postMessage nanoid a d targ s)))
            (nanoid (issued s)) = None
       \<and> (\<forall>tm n' a' t' d'.
            timers (step parse nanoid (TimerFires (nextTimer s)) (run parse nanoid es (postMessage nanoid a d targ s))) tm
              \<noteq> Some (RequestTimeout n' (nanoid (issued s)) a' t', d'))"
proof -
  define t where "t = (case targ of None \<Rightarrow> timeout (options s) | Some t' \<Rightarrow> Some t')"
  define s1 where "s1 = postMessage nanoid a d targ s"
  define s2 where "s2 = run parse nanoid es s1"
  define s3 where "s3 = step parse nanoid (TimerFires (nextTimer s)) s2"
  define n where "n = issued s"
  define i where "i = nanoid n"
  have s1: "s1 = (issue_state nanoid a t s)\<lparr>outbox := outbox s @ [(channelName s,
        \<lparr>action = JStr a, msg_id = JStr i, data = d, code = None, errorMessage = None\<rparr>)]\<rparr>"
    unfolding s1_def t_def i_def n_def by (rule postMessage_sent [OF bridge])
  have p1: "pendingPromises s1 i = Some \<lparr>promise = n, timer = nextTimer s\<rparr>"
    and t1: "timers s1 (nextTimer s) = Some (RequestTimeout n i a t, t)"
    and n1: "nextTimer s1 = Suc (nextTimer s)" and i1: "issued s1 = Suc n"
    by (simp_all add: s1 issue_state_def i_def n_def)
  have r1: "reachable parse nanoid s1"
    using reachable_step [OF reach, of "PostMessage a d targ"] by (simp add: s1_def)
  have r2: "reachable parse nanoid s2"
    unfolding s2_def using r1 by (rule reachable_run)
  have r3: "reachable parse nanoid s3"
    unfolding s3_def using r2 by (rule reachable_step)
  have ev: "evolves nanoid s1 s2"
    unfolding s2_def by (rule evolves_run)
  from pending have pend2: "pendingPromises s2 i \<noteq> None"
    by (simp add: s2_def s1_def i_def n_def)
  have p2: "pendingPromises s2 i = Some \<lparr>promise = n, timer = nextTimer s\<rparr>"
  proof -
    from evolves_pending [OF ev, of i] pend2
    consider "pendingPromises s2 i = pendingPromises s1 i" | k where "issued s1 \<le> k" "i = nanoid k"
      by blast
    then show ?thesis
    proof cases
      case 1
      with p1 show ?thesis by simp
    next
      case 2
      from 2(2) inj have "k = n" by (auto simp: i_def dest: injD)
      with 2(1) i1 show ?thesis by simp
    qed
  qed
  from r2 inj have c2: "correlated nanoid s2" by (rule reachable_correlated)
  then have "pending_ok nanoid s2" by (simp add: correlated_def)
  with p2 have armed: "timers s2 (nextTimer s) \<noteq> None"
    unfolding pending_ok_def by fastforce
  have t2: "timers s2 (nextTimer s) = Some (RequestTimeout n i a t, t)"
    using evolves_timers [OF ev, of "nextTimer s"] n1 armed t1 by auto
  have s3: "s3 = s2\<lparr>timers := (timers s2)(nextTimer s := None),
          pendingPromises := (pendingPromises s2)(i := None),
          settled := settled s2 @ [(n, Rejected (Error (timeout_message a i t)))]\<rparr>"
    unfolding s3_def using timer_fires_timeout [OF t2 p2] by simp
  have p3: "pendingPromises s3 i = None" by (simp add: s3)
  from r3 inj have c3: "correlated nanoid s3" by (rule reachable_correlated)
  from evolves_issued [OF ev] i1 have "n < issued s2" by simp
  moreover from c2 have "calls_ok nanoid s2" by (simp add: correlated_def)
  ultimately have "length (calls n s2) = 0"
    using p2 by (simp add: calls_ok_def i_def)
  then have calls3: "calls n s3 = [Rejected (Error (timeout_message a i t))]"
    by (simp add: s3 calls_def)
  have none3: "timers s3 tm \<noteq> Some (RequestTimeout n' i a' t', d')" for tm n' a' t' d'
  proof
    assume "timers s3 tm = Some (RequestTimeout n' i a' t', d')"
    with c3 have "pendingPromises s3 i = Some \<lparr>promise = n', timer = tm\<rparr>"
      unfolding correlated_def timers_ok_def by blast
    with p3 show False by simp
  qed
  from t2 calls3 p3 none3 show ?thesis
    unfolding s3_def s2_def s1_def t_def i_def n_def timeout_message_def by blast
qed

theorem timeout_rejects_witness:
  "inj example_nanoid
   \<and> reachable example_parse example_nanoid page_ready
   \<and> window page_ready (channelName page_ready) = Sender True
   \<and> pendingPromises (run example_parse example_nanoid [Dispatch ''{oops'']
         (postMessage example_nanoid ''getUserInfo'' JNull None page_ready)) (example_nanoid (issued page_ready)) \<noteq> None
   \<and> calls 0 (step example_parse example_nanoid (TimerFires 0)
         (run example_parse example_nanoid [Dispatch ''{oops'']
            (postMessage example_nanoid ''getUserInfo'' JNull None page_ready))) =
       [Rejected (Error
          [Lit (''FlutterBridgeSDK: Request timed out for action '' @ dquote @ ''getUserInfo'' @ dquote @
                '' (id: x) after ''),
           Num 15000, Lit ''ms''])]"
proof -
  have r: "reachable example_parse example_nanoid page_ready"
    unfolding page_ready_def by (rule reachable_init)
  have b: "window page_ready (channelName page_ready) = Sender True"
    by (simp add: page_ready_fields both_bridges_def)
  have p: "pendingPromises (run example_parse example_nanoid [Dispatch ''{oops'']
         (postMessage example_nanoid ''getUserInfo'' JNull None page_ready)) (example_nanoid (issued page_ready)) \<noteq> None"
    using one_request_pending
    by (simp add: run_def one_request_def [symmetric] page_ready_fields example_nanoid_def
        malformed_json_pending [where parse = example_parse] oops_unparseable)
  show ?thesis
    using timeout_rejects [OF inj_example_nanoid r b p] inj_example_nanoid r b p
    by (simp add: page_ready_fields example_nanoid_def)
qed


section \<open>Every request is completed once\<close>

lemma calls_fresh:
  assumes "correlated nanoid s"
  shows "calls (issued s) s = []"
proof -
  from assms have "\<forall>c \<in> set (settled s). fst c < issued s"
    by (simp add: correlated_def calls_ok_def)
  then have "filter (\<lambda>c. fst c = issued s) (settled s) = []"
    by (auto simp: filter_empty_conv)
  then show ?thesis by (simp add: calls_def)
qed

lemma postMessage_waits:
  assumes "window s (channelName s) = Absent"
  shows "postMessage nanoid a d targ s =
     s\<lparr>timers := (timers s)(nextTimer s \<mapsto>
           (CheckBridge (AwaitPost Absent a d (case targ of None \<Rightarrow> timeout (options s) | Some t' \<Rightarrow> Some t')),
            Some 100)),
       nextTimer := Suc (nextTimer s)\<rparr>"
  using assms
  by (simp add: postMessage_def waitForBridgeReady_def checkBridge_def getBridge_def setTimeout_def Let_def)

lemma postMessage_failed:
  assumes "window s (channelName s) \<noteq> Absent" and "window s (channelName s) \<noteq> Sender True"
  shows "postMessage nanoid a d targ s =
     postMessage_body nanoid (window s (channelName s)) a d
       (case targ of None \<Rightarrow> timeout (options s) | Some t' \<Rightarrow> Some t') s"
  using assms by (simp add: postMessage_def getBridge_def Let_def)

lemma poll_resumes:
  assumes "timers s tm = Some (CheckBridge (AwaitPost Absent a d t), dl)"
    and "is_ready (window s (channelName s))" and "is_ready (window s (innerChannel (options s)))"
  shows "timer_fires nanoid tm s =
           postMessage_body nanoid Absent a d t (s\<lparr>timers := (timers s)(tm := None)\<rparr>)"
  using assms by (simp add: timer_fires_def checkBridge_def getBridge_def Let_def)

lemma poll_again:
  assumes "timers s tm = Some (CheckBridge w, dl)"
    and "\<not> (is_ready (window s (channelName s)) \<and> is_ready (window s (innerChannel (options s))))"
  shows "timer_fires nanoid tm s =
           s\<lparr>timers := (timers s)(tm := None, nextTimer s \<mapsto> (CheckBridge w, Some 100)),
             nextTimer := Suc (nextTimer s)\<rparr>"
  using assms by (auto simp add: timer_fires_def checkBridge_def getBridge_def setTimeout_def Let_def)

lemma one_request_timer:
  "timers one_request 0 = Some (RequestTimeout 0 ''x'' ''getUserInfo'' (Some 15000), Some 15000)"
  by (simp add: one_request_def page_ready_def FlutterBridgeSDK_def postMessage_def getBridge_def both_bridges_def
      postMessage_body_sent issue_state_def example_nanoid_def Let_def)

lemma late_bridges_fields:
  "timers late_bridges 0 = Some (CheckBridge (AwaitPost Absent ''getUserInfo'' JNull (Some 15000)), Some 100)"
  "is_ready (window late_bridges (channelName late_bridges))"
  "is_ready (window late_bridges (innerChannel (options late_bridges)))"
  "issued late_bridges = 0"
  by (simp_all add: late_bridges_def page_no_bridges_def request_eval)

lemma late_bridges_reachable: "reachable example_parse example_nanoid late_bridges"
  unfolding late_bridges_def page_no_bridges_def by (rule reachable_run) (rule reachable_init)

lemma page_outbound_throws_fields:
  "window page_outbound_throws (channelName page_outbound_throws) = Sender False"
  "issued page_outbound_throws = 0"
  by (simp_all add: page_outbound_throws_def outbound_throws_def FlutterBridgeSDK_def)

text \<open>
  C1. With an identifier generator that never repeats an identifier, in every state the
  system can reach:

  \<^item> a promise \<open>n\<close> that \<open>postMessage\<close> has created and whose entry is in the table has
    not been completed, and its timeout timer is armed; when that timer fires the promise
    is rejected with the timeout error of this request, and when a response with its
    identifier is dispatched it is resolved with the data or rejected with the error of the
    failure response; either way this is its only completion, and the entry is gone;

  \<^item> a promise that \<open>postMessage\<close> has created and whose entry is gone has been completed
    by exactly one call, which is a resolve by a response, a reject by a failure response,
    a reject by the timeout of this request, or a reject by the failed send (\<open>TypeError\<close>
    or what the host threw); as this holds in every reachable state, no later event
    completes it again;

  \<^item> every entry of the table belongs to the one promise that owns its identifier, so an
    identifier never has two pending entries;

  \<^item> \<open>postMessage\<close> on a working outbound bridge creates the next promise, pending and not
    completed; on an outbound bridge that throws or has no \<open>postMessage\<close> function it
    creates the next promise, completed once by the failed send, with no entry left;

  \<^item> \<open>postMessage\<close> without an outbound bridge creates no promise and no entry yet: the
    call waits in \<open>waitForBridgeReady\<close>. Each poll that does not find both bridges arms the
    next poll and changes nothing else; the poll that finds them creates the promise, which
    is completed once by the failed send (\<open>nativeBridge\<close> was read before the wait), with
    no entry left.
\<close>

theorem exactly_one_completion:
  assumes inj: "inj nanoid" and reach: "reachable parse nanoid s"
  shows "(\<forall>n pp. n < issued s \<and> pendingPromises s (nanoid n) = Some pp \<longrightarrow>
            promise pp = n \<and> calls n s = [] \<and>
            (\<exists>a t. timers s (timer pp) = Some (RequestTimeout n (nanoid n) a t, t) \<and>
               calls n (step parse nanoid (TimerFires (timer pp)) s) =
                 [Rejected (Error (timeout_message a (nanoid n) t))] \<and>
               pendingPromises (step parse nanoid (TimerFires (timer pp)) s) (nanoid n) = None) \<and>
            (\<forall>m p. parse m = Some (Envelope p) \<and> msg_id p = JStr (nanoid n) \<longrightarrow>
               calls n (step parse nanoid (Dispatch m) s) =
                 [if is_success p then Resolved (data p)
                  else Rejected (ErrorWithCode (failure_message p) (code p))] \<and>
               pendingPromises (step parse nanoid (Dispatch m) s) (nanoid n) = None))
       \<and> (\<forall>n. n < issued s \<and> pendingPromises s (nanoid n) = None \<longrightarrow>
            (\<exists>r. calls n s = [r] \<and>
              ((\<exists>v. r = Resolved v) \<or> (\<exists>m c. r = Rejected (ErrorWithCode m c)) \<or>
               (\<exists>a t. r = Rejected (Error (timeout_message a (nanoid n) t))) \<or>
               r = Rejected TypeError \<or> r = Rejected HostError)))
       \<and> (\<forall>i pp. pendingPromises s i = Some pp \<longrightarrow> promise pp < issued s \<and> nanoid (promise pp) = i)
       \<and> (\<forall>a d targ. window s (channelName s) = Sender True \<longrightarrow>
            issued (step parse nanoid (PostMessage a d targ) s) = Suc (issued s) \<and>
            pendingPromises (step parse nanoid (PostMessage a d targ) s) (nanoid (issued s)) =
              Some \<lparr>promise = issued s, timer = nextTimer s\<rparr> \<and>
            calls (issued s) (step parse nanoid (PostMessage a d targ) s) = [])
       \<and> (\<forall>a d targ. window s (channelName s) \<noteq> Sender True \<and> window s (channelName s) \<noteq> Absent \<longrightarrow>
            issued (step parse nanoid (PostMessage a d targ) s) = Suc (issued s) \<and>
            pendingPromises (step parse nanoid (PostMessage a d targ) s) (nanoid (issued s)) = None \<and>
            calls (issued s) (step parse nanoid (PostMessage a d targ) s) =
              [Rejected (if window s (channelName s) = Sender False then HostError else TypeError)])
       \<and> (\<forall>a d targ. window s (channelName s) = Absent \<longrightarrow>
            issued (step parse nanoid (PostMessage a d targ) s) = issued s \<and>
            pendingPromises (step parse nanoid (PostMessage a d targ) s) = pendingPromises s \<and>
            settled (step parse nanoid (PostMessage a d targ) s) = settled s \<and>
            timers (step parse nanoid (PostMessage a d targ) s) (nextTimer s) =
              Some (CheckBridge (AwaitPost Absent a d
                      (case targ of None \<Rightarrow> timeout (options s) | Some t' \<Rightarrow> Some t')), Some 100))
       \<and> (\<forall>tm b a d t dl. timers s tm = Some (CheckBridge (AwaitPost b a d t), dl) \<longrightarrow>
            (if is_ready (window s (channelName s)) \<and> is_ready (window s (innerChannel (options s)))
             then issued (step parse nanoid (TimerFires tm) s) = Suc (issued s) \<and>
                  pendingPromises (step parse nanoid (TimerFires tm) s) (nanoid (issued s)) = None \<and>
                  calls (issued s) (step parse nanoid (TimerFires tm) s) = [Rejected TypeError]
             else issued (step parse nanoid (TimerFires tm) s) = issued s \<and>
                  pendingPromises (step parse nanoid (TimerFires tm) s) = pendingPromises s \<and>
                  settled (step parse nanoid (TimerFires tm) s) = settled s \<and>
                  timers (step parse nanoid (TimerFires tm) s) (nextTimer s) =
                    Some (CheckBridge (AwaitPost b a d t), Some 100)))"
proof -
  from assms have c: "correlated nanoid s" by (simp add: reachable_correlated)
  then have po: "pending_ok nanoid s" and co: "calls_ok nanoid s" by (simp_all add: correlated_def)
  have fresh: "calls (issued s) s = []" using c by (rule calls_fresh)
  have 1: "promise pp = n \<and> calls n s = [] \<and>
            (\<exists>a t. timers s (timer pp) = Some (RequestTimeout n (nanoid n) a t, t) \<and>
               calls n (step parse nanoid (TimerFires (timer pp)) s) =
                 [Rejected (Error (timeout_message a (nanoid n) t))] \<and>
               pendingPromises (step parse nanoid (TimerFires (timer pp)) s) (nanoid n) = None) \<and>
            (\<forall>m p. parse m = Some (Envelope p) \<and> msg_id p = JStr (nanoid n) \<longrightarrow>
               calls n (step parse nanoid (Dispatch m) s) =
                 [if is_success p then Resolved (data p)
                  else Rejected (ErrorWithCode (failure_message p) (code p))] \<and>
               pendingPromises (step parse nanoid (Dispatch m) s) (nanoid n) = None)"
    if lt: "n < issued s" and h: "pendingPromises s (nanoid n) = Some pp" for n pp
  proof -
    from po h obtain a t where *: "promise pp < issued s" "nanoid (promise pp) = nanoid n"
      "timers s (timer pp) = Some (RequestTimeout (promise pp) (nanoid n) a t, t)"
      unfolding pending_ok_def by blast
    from *(2) inj have eq: "promise pp = n" by (auto dest: injD)
    from co lt h have "length (calls n s) = 0" by (simp add: calls_ok_def)
    then have empty: "calls n s = []" by simp
    from *(3) eq have tm: "timers s (timer pp) = Some (RequestTimeout n (nanoid n) a t, t)" by simp
    have fire: "calls n (step parse nanoid (TimerFires (timer pp)) s) =
                 [Rejected (Error (timeout_message a (nanoid n) t))]"
      "pendingPromises (step parse nanoid (TimerFires (timer pp)) s) (nanoid n) = None"
      using empty by (simp_all add: timer_fires_timeout [OF tm h] calls_def)
    have answer: "calls n (step parse nanoid (Dispatch m) s) =
                 [if is_success p then Resolved (data p)
                  else Rejected (ErrorWithCode (failure_message p) (code p))] \<and>
               pendingPromises (step parse nanoid (Dispatch m) s) (nanoid n) = None"
      if "parse m = Some (Envelope p)" and "msg_id p = JStr (nanoid n)" for m p
      using empty eq dispatch_answer [where parse = parse and m = m and p = p and i = "nanoid n"
          and s = s and pp = pp and nanoid = nanoid, OF that h]
      by (simp add: calls_def)
    have ex: "\<exists>a t. timers s (timer pp) = Some (RequestTimeout n (nanoid n) a t, t) \<and>
               calls n (step parse nanoid (TimerFires (timer pp)) s) =
                 [Rejected (Error (timeout_message a (nanoid n) t))] \<and>
               pendingPromises (step parse nanoid (TimerFires (timer pp)) s) (nanoid n) = None"
      using tm fire by (intro exI conjI)
    have all: "\<forall>m p. parse m = Some (Envelope p) \<and> msg_id p = JStr (nanoid n) \<longrightarrow>
               calls n (step parse nanoid (Dispatch m) s) =
                 [if is_success p then Resolved (data p)
                  else Rejected (ErrorWithCode (failure_message p) (code p))] \<and>
               pendingPromises (step parse nanoid (Dispatch m) s) (nanoid n) = None"
      by (intro allI impI, elim conjE, rule answer)
    from eq empty ex all show ?thesis by (intro conjI)
  qed
  have 2: "\<exists>r. calls n s = [r] \<and>
              ((\<exists>v. r = Resolved v) \<or> (\<exists>m c. r = Rejected (ErrorWithCode m c)) \<or>
               (\<exists>a t. r = Rejected (Error (timeout_message a (nanoid n) t))) \<or>
               r = Rejected TypeError \<or> r = Rejected HostError)"
    if lt: "n < issued s" and h: "pendingPromises s (nanoid n) = None" for n
  proof -
    from co lt h have "length (calls n s) = 1" by (simp add: calls_ok_def)
    then obtain r where r: "calls n s = [r]" by (cases "calls n s") auto
    then have "(n, r) \<in> set (settled s)" by (rule calls_singleton_mem)
    with co have k: "completion_of nanoid n r" by (fastforce simp: calls_ok_def)
    have "(\<exists>v. r = Resolved v) \<or> (\<exists>m c. r = Rejected (ErrorWithCode m c)) \<or>
               (\<exists>a t. r = Rejected (Error (timeout_message a (nanoid n) t))) \<or>
               r = Rejected TypeError \<or> r = Rejected HostError"
    proof (cases r)
      case (Resolved v)
      then show ?thesis by simp
    next
      case (Rejected e)
      with k show ?thesis by (cases e) auto
    qed
    with r show ?thesis by blast
  qed
  have 3: "promise pp < issued s \<and> nanoid (promise pp) = i" if "pendingPromises s i = Some pp" for i pp
    using po that unfolding pending_ok_def by blast
  have 4: "issued (step parse nanoid (PostMessage a d targ) s) = Suc (issued s) \<and>
            pendingPromises (step parse nanoid (PostMessage a d targ) s) (nanoid (issued s)) =
              Some \<lparr>promise = issued s, timer = nextTimer s\<rparr> \<and>
            calls (issued s) (step parse nanoid (PostMessage a d targ) s) = []"
    if "window s (channelName s) = Sender True" for a d targ
    using fresh by (simp add: postMessage_sent [OF that] issue_state_def calls_def)
  have 5: "issued (step parse nanoid (PostMessage a d targ) s) = Suc (issued s) \<and>
            pendingPromises (step parse nanoid (PostMessage a d targ) s) (nanoid (issued s)) = None \<and>
            calls (issued s) (step parse nanoid (PostMessage a d targ) s) =
              [Rejected (if window s (channelName s) = Sender False then HostError else TypeError)]"
    if b: "window s (channelName s) \<noteq> Sender True" and "window s (channelName s) \<noteq> Absent" for a d targ
    using fresh that
    by (simp add: postMessage_failed postMessage_body_failed [OF b] issue_state_def calls_def)
  have 6: "issued (step parse nanoid (PostMessage a d targ) s) = issued s \<and>
            pendingPromises (step parse nanoid (PostMessage a d targ) s) = pendingPromises s \<and>
            settled (step parse nanoid (PostMessage a d targ) s) = settled s \<and>
            timers (step parse nanoid (PostMessage a d targ) s) (nextTimer s) =
              Some (CheckBridge (AwaitPost Absent a d
                      (case targ of None \<Rightarrow> timeout (options s) | Some t' \<Rightarrow> Some t')), Some 100)"
    if "window s (channelName s) = Absent" for a d targ
    by (simp add: postMessage_waits [OF that])
  have 7: "if is_ready (window s (channelName s)) \<and> is_ready (window s (innerChannel (options s)))
             then issued (step parse nanoid (TimerFires tm) s) = Suc (issued s) \<and>
                  pendingPromises (step parse nanoid (TimerFires tm) s) (nanoid (issued s)) = None \<and>
                  calls (issued s) (step parse nanoid (TimerFires tm) s) = [Rejected TypeError]
             else issued (step parse nanoid (TimerFires tm) s) = issued s \<and>
                  pendingPromises (step parse nanoid (TimerFires tm) s) = pendingPromises s \<and>
                  settled (step parse nanoid (TimerFires tm) s) = settled s \<and>
                  timers (step parse nanoid (TimerFires tm) s) (nextTimer s) =
                    Some (CheckBridge (AwaitPost b a d t), Some 100)"
    if tm: "timers s tm = Some (CheckBridge (AwaitPost b a d t), dl)" for tm b a d t dl
  proof (cases "is_ready (window s (channelName s)) \<and> is_ready (window s (innerChannel (options s)))")
    case True
    from reach have "registry_ok s" by (rule reachable_registry_ok)
    from registry_okD(5) [OF this tm] have b: "b = Absent" by simp
    have ne: "Absent \<noteq> Sender True" by simp
    from tm b True have "timer_fires nanoid tm s =
           postMessage_body nanoid Absent a d t (s\<lparr>timers := (timers s)(tm := None)\<rparr>)"
      by (simp add: poll_resumes)
    with True fresh show ?thesis
      by (simp add: postMessage_body_failed [OF ne] issue_state_def calls_def)
  next
    case False
    with poll_again [OF tm False, of nanoid] show ?thesis
      by simp
  qed
  show ?thesis
  proof (intro conjI)
    show "\<forall>n pp. n < issued s \<and> pendingPromises s (nanoid n) = Some pp \<longrightarrow>
            promise pp = n \<and> calls n s = [] \<and>
            (\<exists>a t. timers s (timer pp) = Some (RequestTimeout n (nanoid n) a t, t) \<and>
               calls n (step parse nanoid (TimerFires (timer pp)) s) =
                 [Rejected (Error (timeout_message a (nanoid n) t))] \<and>
               pendingPromises (step parse nanoid (TimerFires (timer pp)) s) (nanoid n) = None) \<and>
            (\<forall>m p. parse m = Some (Envelope p) \<and> msg_id p = JStr (nanoid n) \<longrightarrow>
               calls n (step parse nanoid (Dispatch m) s) =
                 [if is_success p then Resolved (data p)
                  else Rejected (ErrorWithCode (failure_message p) (code p))] \<and>
               pendingPromises (step parse nanoid (Dispatch m) s) (nanoid n) = None)"
      by (intro allI impI, elim conjE, rule 1)
  qed (intro allI impI, (elim conjE)?, rule 2 3 4 5 6 7; assumption)+
qed

theorem exactly_one_completion_witness:
  "inj example_nanoid
   \<and> reachable example_parse example_nanoid one_request
   \<and> 0 < issued one_request
   \<and> pendingPromises one_request (example_nanoid 0) = Some \<lparr>promise = 0, timer = 0\<rparr>
   \<and> calls 0 one_request = []
   \<and> calls 0 (step example_parse example_nanoid (TimerFires 0) one_request) =
       [Rejected (Error (timeout_message ''getUserInfo'' ''x'' (Some 15000)))]
   \<and> pendingPromises (step example_parse example_nanoid (TimerFires 0) one_request) ''x'' = None
   \<and> example_parse response_x_200 =
       Some (Envelope \<lparr>action = JUndefined, msg_id = JStr ''x'', data = JNum 1, code = Some 200, errorMessage = None\<rparr>)
   \<and> calls 0 (step example_parse example_nanoid (Dispatch response_x_200) one_request) = [Resolved (JNum 1)]
   \<and> pendingPromises (step example_parse example_nanoid (Dispatch response_x_200) one_request) ''x'' = None
   \<and> reachable example_parse example_nanoid page_outbound_throws
   \<and> window page_outbound_throws (channelName page_outbound_throws) = Sender False
   \<and> calls 0 (step example_parse example_nanoid (PostMessage ''getUserInfo'' JNull None) page_outbound_throws) =
       [Rejected HostError]
   \<and> reachable example_parse example_nanoid late_bridges
   \<and> timers late_bridges 0 = Some (CheckBridge (AwaitPost Absent ''getUserInfo'' JNull (Some 15000)), Some 100)
   \<and> calls 0 (step example_parse example_nanoid (TimerFires 0) late_bridges) = [Rejected TypeError]"
proof -
  note i = inj_example_nanoid
  note r1 = one_request_reachable
  have n: "0 < issued one_request" by (simp add: one_request_issued)
  have p: "pendingPromises one_request (example_nanoid 0) = Some \<lparr>promise = 0, timer = 0\<rparr>"
    using one_request_pending by (simp add: example_nanoid_def)
  have x: "example_nanoid 0 = ''x''" by (simp add: example_nanoid_def)
  have m: "msg_id \<lparr>action = JUndefined, msg_id = JStr ''x'', data = JNum 1, code = Some 200, errorMessage = None\<rparr>
             = JStr (example_nanoid 0)"
    by (simp add: example_nanoid_def)
  have ok: "is_success \<lparr>action = JUndefined, msg_id = JStr ''x'', data = JNum 1, code = Some 200, errorMessage = None\<rparr>"
    by (simp add: is_success_def)
  have r2: "reachable example_parse example_nanoid page_outbound_throws"
    unfolding page_outbound_throws_def by (rule reachable_init)
  note r3 = late_bridges_reachable
  note t1 = exactly_one_completion [OF i r1, THEN conjunct1, rule_format, of 0 "\<lparr>promise = 0, timer = 0\<rparr>",
      OF conjI [OF n p]]
  have a: "calls 0 one_request = []"
    "calls 0 (step example_parse example_nanoid (TimerFires 0) one_request) =
       [Rejected (Error (timeout_message ''getUserInfo'' ''x'' (Some 15000)))]"
    "pendingPromises (step example_parse example_nanoid (TimerFires 0) one_request) ''x'' = None"
    using t1 [THEN conjunct2, THEN conjunct1] t1 [THEN conjunct2, THEN conjunct2, THEN conjunct1]
      one_request_timer x
    by auto
  have a': "calls 0 (step example_parse example_nanoid (Dispatch response_x_200) one_request) = [Resolved (JNum 1)]"
    "pendingPromises (step example_parse example_nanoid (Dispatch response_x_200) one_request) ''x'' = None"
    using t1 [THEN conjunct2, THEN conjunct2, THEN conjunct2, rule_format, OF conjI [OF example_parse_x_200 m]] ok x
    by simp_all
  have b: "calls 0 (step example_parse example_nanoid (PostMessage ''getUserInfo'' JNull None) page_outbound_throws) =
       [Rejected HostError]"
    using exactly_one_completion [OF i r2, THEN conjunct2, THEN conjunct2, THEN conjunct2, THEN conjunct2,
        THEN conjunct1, rule_format, of "''getUserInfo''" JNull None]
    by (simp add: page_outbound_throws_fields)
  have c: "calls 0 (step example_parse example_nanoid (TimerFires 0) late_bridges) = [Rejected TypeError]"
    using exactly_one_completion [OF i r3, THEN conjunct2, THEN conjunct2, THEN conjunct2, THEN conjunct2,
        THEN conjunct2, THEN conjunct2, rule_format, OF late_bridges_fields(1)]
    by (simp add: late_bridges_fields)
  from i r1 n p a example_parse_x_200 a' r2 page_outbound_throws_fields(1) b r3 late_bridges_fields(1) c
  show ?thesis by (intro conjI)
qed

end
